theory Spec2Isabelle
  imports Complex_Main
begin

section \<open>Outcomes\<close>

text \<open>
  The source guards its preconditions with \<^verbatim>\<open>SkASSERT\<close>, and indexes fixed-size C arrays.
  The model follows the checked build: a failed assertion and an array access outside
  the array are values of type \<open>fault\<close>, and every operation that can meet one returns
  \<open>fault + result\<close> (\<open>Inl\<close> the fault, \<open>Inr\<close> the normal return).
\<close>

datatype fault = AssertFailed | OutOfBounds

section \<open>Hardware capabilities\<close>

text \<open>
  \<^verbatim>\<open>GrShaderCaps\<close> is declared outside the files at hand; the three queries the texture
  op makes are its fields here.
\<close>

record GrShaderCaps =
  integerSupport :: bool
  maxFragmentSamplers :: int
  disableImageMultitexturingDstRectAreaThreshold :: nat

section \<open>The shader-variant selector\<close>

text \<open>
  \<^verbatim>\<open>kMaxTextures\<close> is 4 when \<^verbatim>\<open>SK_BUILD_FOR_ANDROID\<close> is defined and 8 otherwise; the
  build flag is the argument.
\<close>

definition kMaxTextures :: "bool \<Rightarrow> int" where
  "kMaxTextures android = (if android then 4 else 8)"

definition SupportsMultitexture :: "GrShaderCaps \<Rightarrow> bool" where
  "SupportsMultitexture caps = (integerSupport caps \<and> maxFragmentSamplers caps > 1)"

text \<open>
  Modelled from the spec: \<^verbatim>\<open>SkNextPow2\<close> (SkMathPriv.h) is not among the source files.
  The spec says the count is rounded up to the next power of two: the loop doubles a
  power of two, starting at 1, until it reaches the argument.
\<close>

function next_pow2_loop :: "int \<Rightarrow> int \<Rightarrow> int" where
  "next_pow2_loop p n = (if 0 < p \<and> p < n then next_pow2_loop (2 * p) n else p)"
  by pat_completeness auto
termination
  by (relation "measure (\<lambda>(p, n). nat (n - p))") auto

definition SkNextPow2 :: "int \<Rightarrow> int" where
  "SkNextPow2 n = next_pow2_loop 1 n"

text \<open>
  \<^verbatim>\<open>TextureGeometryProcessor::NumSamplersToUse\<close>. The assertion is the first statement
  of the source function.
\<close>

definition NumSamplersToUse :: "bool \<Rightarrow> int \<Rightarrow> GrShaderCaps \<Rightarrow> fault + int" where
  "NumSamplersToUse android numRealProxies caps =
     (if \<not> (numRealProxies > 0 \<and> numRealProxies \<le> kMaxTextures android \<and>
              numRealProxies \<le> maxFragmentSamplers caps)
      then Inl AssertFailed
      else if 1 = numRealProxies then Inr 1
      else if numRealProxies \<le> 4 then Inr 4
      else Inr (min (SkNextPow2 numRealProxies)
                    (min (kMaxTextures android) (maxFragmentSamplers caps))))"

section \<open>Textures, draws and the batch\<close>

text \<open>
  The texture proxy, its texture, the sampler types and the filter modes are declared
  outside the files at hand. The model keeps what \<^verbatim>\<open>TextureOp\<close> asks of them:
  \<^verbatim>\<open>uniqueID()\<close>, \<^verbatim>\<open>config()\<close>, \<^verbatim>\<open>origin()\<close>, and \<^verbatim>\<open>priv().peekTexture()\<close>, which is
  null (\<open>None\<close>) until the proxy is instantiated.
\<close>

datatype GrSLType =
  kTexture2DSampler_GrSLType | kTextureExternalSampler_GrSLType | kTexture2DRectSampler_GrSLType

datatype GrSurfaceOrigin = kTopLeft_GrSurfaceOrigin | kBottomLeft_GrSurfaceOrigin

datatype Filter = kNearest | kBilerp | kMipMap

datatype GrAAType = kNone | kCoverage | kMSAA | kMixedSamples

record GrTexture =
  samplerType :: GrSLType
  width :: nat
  height :: nat

record GrTextureProxy =
  uniqueID :: nat
  config :: nat
  origin :: GrSurfaceOrigin
  peekTexture :: "GrTexture option"

text \<open>
  Modelled from the spec: \<^verbatim>\<open>GrColorSpaceXform\<close> is not among the source files. The spec
  treats the transform as opaque and compares two of them by value; a null transform
  is \<open>None\<close>.
\<close>

type_synonym GrColorSpaceXform = nat

definition Equals :: "GrColorSpaceXform option \<Rightarrow> GrColorSpaceXform option \<Rightarrow> bool" where
  "Equals a b = (a = b)"

text \<open>
  Coordinates are single-precision floats in the source. They are carried as reals, and
  no theorem below depends on their arithmetic.
\<close>

record SkRect =
  fLeft :: real
  fTop :: real
  fRight :: real
  fBottom :: real

type_synonym GrPerspQuad = "(real \<times> real \<times> real) list"

record Draw =
  fSrcRect :: SkRect
  fTextureIdx :: int
  fQuad :: GrPerspQuad
  fColor :: nat

text \<open>
  The source keeps \<^verbatim>\<open>fProxy0\<close> and \<^verbatim>\<open>fProxyArray\<close> in a union: one proxy and one filter
  inline while \<^verbatim>\<open>fProxyCnt\<close> is 1, a heap block of \<^verbatim>\<open>kMaxTextures\<close> proxy slots followed
  by \<^verbatim>\<open>kMaxTextures\<close> filter slots afterwards. \<open>fProxyArray\<close> and \<open>fFilterArray\<close> hold the
  slots of the block written so far, in order. \<open>fBounds\<close> is the bounds field the op
  inherits from \<^verbatim>\<open>GrOp\<close>.
\<close>

record TextureOp =
  fDraws :: "Draw list"
  fColorSpaceXform :: "GrColorSpaceXform option"
  fProxy0 :: GrTextureProxy
  fProxyArray :: "GrTextureProxy list"
  fFilterArray :: "Filter list"
  fMaxApproxDstPixelArea :: nat
  fFilter0 :: Filter
  fProxyCnt :: nat
  fAAType :: GrAAType
  fPerspective :: bool
  fFinalized :: bool
  fAllowSRGBInputs :: bool
  fBounds :: SkRect

definition proxies :: "TextureOp \<Rightarrow> GrTextureProxy list" where
  "proxies op = (if fProxyCnt op > 1 then fProxyArray op else [fProxy0 op])"

definition filters :: "TextureOp \<Rightarrow> Filter list" where
  "filters op = (if fProxyCnt op > 1 then fFilterArray op else [fFilter0 op])"

text \<open>
  Every loop of the source over the textures runs \<^verbatim>\<open>i\<close> from 0 below \<^verbatim>\<open>fProxyCnt\<close> and
  reads \<^verbatim>\<open>proxies()[i]\<close> and \<^verbatim>\<open>filters()[i]\<close>: the slots it visits are these.
\<close>

definition slots :: "TextureOp \<Rightarrow> (GrTextureProxy \<times> Filter) list" where
  "slots op = take (fProxyCnt op) (zip (proxies op) (filters op))"

text \<open>
  The reference-count traffic on the proxies (\<^verbatim>\<open>addPendingRead\<close>, \<^verbatim>\<open>completedRead\<close>,
  \<^verbatim>\<open>unref\<close>) is an effect on objects the op does not own. Each operation returns the
  calls it made, in order, with the \<^verbatim>\<open>uniqueID\<close> of the proxy called.
\<close>

datatype RefEvent = AddPendingRead nat | CompletedRead nat | Unref nat

subsection \<open>Construction\<close>

text \<open>
  \<^verbatim>\<open>RectSizeAsSizeT\<close>: the float product is cast to \<^verbatim>\<open>size_t\<close>. The source switches the
  overflow check of that cast off; the model takes the integer part of the real product.
\<close>

definition RectSizeAsSizeT :: "SkRect \<Rightarrow> nat" where
  "RectSizeAsSizeT rect =
     nat \<lfloor>max (fRight rect - fLeft rect) 1 * max (fBottom rect - fTop rect) 1\<rfloor>"

text \<open>
  The constructor. \<^verbatim>\<open>GrPerspQuad(dstRect, viewMatrix)\<close>, its \<^verbatim>\<open>bounds()\<close> and
  \<^verbatim>\<open>viewMatrix.hasPerspective()\<close> are computed by classes outside the files at hand:
  their three results are the arguments \<open>quad\<close>, \<open>bounds\<close> and \<open>hasPerspective\<close>.
\<close>

definition TextureOp_ctor ::
  "GrTextureProxy \<Rightarrow> Filter \<Rightarrow> nat \<Rightarrow> SkRect \<Rightarrow> GrPerspQuad \<Rightarrow> SkRect \<Rightarrow> bool \<Rightarrow> GrAAType \<Rightarrow>
   GrColorSpaceXform option \<Rightarrow> bool \<Rightarrow> fault + TextureOp" where
  "TextureOp_ctor proxy filter0 color srcRect quad bounds hasPerspective aaType csxf
       allowSRGBInputs =
     (if aaType = kMixedSamples then Inl AssertFailed
      else Inr \<lparr> fDraws = [\<lparr> fSrcRect = srcRect, fTextureIdx = 0, fQuad = quad,
                             fColor = color \<rparr>],
                 fColorSpaceXform = csxf,
                 fProxy0 = proxy,
                 fProxyArray = [],
                 fFilterArray = [],
                 fMaxApproxDstPixelArea = RectSizeAsSizeT bounds,
                 fFilter0 = filter0,
                 fProxyCnt = 1,
                 fAAType = aaType,
                 fPerspective = hasPerspective,
                 fFinalized = False,
                 fAllowSRGBInputs = allowSRGBInputs,
                 fBounds = bounds \<rparr>)"

subsection \<open>Finalization and destruction\<close>

definition finalize :: "TextureOp \<Rightarrow> fault + (TextureOp \<times> RefEvent list)" where
  "finalize op =
     (if fFinalized op then Inl AssertFailed
      else if 1 \<noteq> fProxyCnt op then Inl AssertFailed
      else Inr (op\<lparr>fFinalized := True\<rparr>,
                [AddPendingRead (uniqueID (fProxy0 op)), Unref (uniqueID (fProxy0 op))]))"

text \<open>
  The destructor \<^verbatim>\<open>~TextureOp\<close>. Freeing the heap block has no counterpart in the model.
\<close>

definition TextureOp_dtor :: "TextureOp \<Rightarrow> fault + RefEvent list" where
  "TextureOp_dtor op =
     (if fFinalized op
      then Inr (map (\<lambda>(p, f). CompletedRead (uniqueID p)) (slots op))
      else if 1 \<noteq> fProxyCnt op then Inl AssertFailed
      else Inr [Unref (uniqueID (fProxy0 op))])"

subsection \<open>Merging\<close>

text \<open>
  \<^verbatim>\<open>mergeProxies\<close>, first loop nest. For the texture \<open>p\<close> with filter \<open>f\<close> in slot \<open>i\<close> of
  this op, the inner loop walks the other op's slots from \<open>j\<close> on. \<open>Inr None\<close> is the
  source's \<^verbatim>\<open>return -1\<close>. The map is the caller's array \<^verbatim>\<open>int map[kMaxTextures]\<close>; a store
  outside it is a fault.
\<close>

fun merge_match ::
  "GrTextureProxy \<Rightarrow> Filter \<Rightarrow> int \<Rightarrow> (GrTextureProxy \<times> Filter) list \<Rightarrow> nat \<Rightarrow>
   int list \<times> int \<Rightarrow> fault + (int list \<times> int) option" where
  "merge_match p f i [] j (m, sharedProxyCnt) = Inr (Some (m, sharedProxyCnt))"
| "merge_match p f i ((q, g) # rest) j (m, sharedProxyCnt) =
     (if uniqueID p = uniqueID q then
        (if f \<noteq> g then Inr None
         else if j < length m then Inr (Some (m[j := i], sharedProxyCnt + 1))
         else Inl OutOfBounds)
      else merge_match p f i rest (Suc j) (m, sharedProxyCnt))"

fun merge_shared ::
  "(GrTextureProxy \<times> Filter) list \<Rightarrow> int \<Rightarrow> (GrTextureProxy \<times> Filter) list \<Rightarrow>
   int list \<times> int \<Rightarrow> fault + (int list \<times> int) option" where
  "merge_shared [] i thatSlots st = Inr (Some st)"
| "merge_shared ((p, f) # rest) i thatSlots st =
     (case merge_match p f i thatSlots 0 st of
        Inl e \<Rightarrow> Inl e
      | Inr None \<Rightarrow> Inr None
      | Inr (Some st') \<Rightarrow> merge_shared rest (i + 1) thatSlots st')"

text \<open>
  \<^verbatim>\<open>mergeProxies\<close>, second loop: the config and sampler-type checks on every texture of
  the other op, and a fresh slot for each one not yet mapped.
\<close>

fun merge_assign ::
  "nat \<Rightarrow> (GrTextureProxy \<times> Filter) list \<Rightarrow> nat \<Rightarrow> int list \<times> int \<Rightarrow>
   fault + (int list) option" where
  "merge_assign cfg [] j (m, nextSlot) = Inr (Some m)"
| "merge_assign cfg ((q, g) # rest) j (m, nextSlot) =
     (if config q \<noteq> cfg then Inr None
      else if (case peekTexture q of
                 Some tex \<Rightarrow> samplerType tex \<noteq> kTexture2DSampler_GrSLType
               | None \<Rightarrow> False) then Inr None
      else if \<not> j < length m then Inl OutOfBounds
      else if m ! j < 0 then merge_assign cfg rest (Suc j) (m[j := - nextSlot], nextSlot + 1)
      else merge_assign cfg rest (Suc j) (m, nextSlot))"

text \<open>
  \<^verbatim>\<open>mergeProxies\<close>. \<open>Inr None\<close> is a \<^verbatim>\<open>return -1\<close>; \<open>Inr (Some (map, n))\<close> is the final
  \<^verbatim>\<open>return newProxyCnt\<close> with the map the function filled in. \<^verbatim>\<open>thisProxies[0]\<close> is read
  for its config: a block with no slot written has nothing there.
\<close>

definition mergeProxies ::
  "bool \<Rightarrow> TextureOp \<Rightarrow> TextureOp \<Rightarrow> GrShaderCaps \<Rightarrow> fault + (int list \<times> int) option" where
  "mergeProxies android this that caps =
     (case merge_shared (slots this) 0 (slots that)
             (replicate (nat (kMaxTextures android)) (- kMaxTextures android), 0) of
        Inl e \<Rightarrow> Inl e
      | Inr None \<Rightarrow> Inr None
      | Inr (Some (m, sharedProxyCnt)) \<Rightarrow>
          (let actualMaxTextures = min (maxFragmentSamplers caps) (kMaxTextures android);
               newProxyCnt = int (fProxyCnt that) - sharedProxyCnt
           in if newProxyCnt + int (fProxyCnt this) > actualMaxTextures then Inr None
              else (case proxies this of
                      [] \<Rightarrow> Inl OutOfBounds
                    | p0 # _ \<Rightarrow>
                        (case merge_assign (config p0) (slots that) 0
                                (m, int (fProxyCnt this)) of
                           Inl e \<Rightarrow> Inl e
                         | Inr None \<Rightarrow> Inr None
                         | Inr (Some m') \<Rightarrow> Inr (Some (m', newProxyCnt))))))"

text \<open>
  A store into the heap block. The lists hold the slots written so far, so a store to
  the first unwritten slot extends them; the block has \<^verbatim>\<open>kMaxTextures\<close> slots of each
  kind, and a store that would fall outside it or leave an unwritten slot behind is a
  fault.
\<close>

definition array_store :: "int \<Rightarrow> 'a list \<Rightarrow> int \<Rightarrow> 'a \<Rightarrow> fault + 'a list" where
  "array_store capacity xs k v =
     (if 0 \<le> k \<and> k < int (length xs) \<and> k < capacity then Inr (xs[nat k := v])
      else if k = int (length xs) \<and> k < capacity then Inr (xs @ [v])
      else Inl OutOfBounds)"

text \<open>
  \<^verbatim>\<open>onCombineIfPossible\<close>, the loop that takes over the other op's new textures: a
  pending read on each, the proxy and its filter stored at the slot the map names, and
  the map entry made positive.
\<close>

fun absorb_proxies ::
  "int \<Rightarrow> (GrTextureProxy \<times> Filter) list \<Rightarrow> nat \<Rightarrow>
   GrTextureProxy list \<times> Filter list \<times> int list \<times> RefEvent list \<Rightarrow>
   fault + (GrTextureProxy list \<times> Filter list \<times> int list \<times> RefEvent list)" where
  "absorb_proxies capacity [] i st = Inr st"
| "absorb_proxies capacity ((q, g) # rest) i (ps, fs, m, evs) =
     (if \<not> i < length m then Inl OutOfBounds
      else if m ! i < 0 then
        (case array_store capacity ps (- (m ! i)) q of
           Inl e \<Rightarrow> Inl e
         | Inr ps' \<Rightarrow>
             (case array_store capacity fs (- (m ! i)) g of
                Inl e \<Rightarrow> Inl e
              | Inr fs' \<Rightarrow>
                  absorb_proxies capacity rest (Suc i)
                    (ps', fs', m[i := - (m ! i)], evs @ [AddPendingRead (uniqueID q)])))
      else absorb_proxies capacity rest (Suc i) (ps, fs, m, evs))"

text \<open>
  The loop over the draws copied from the other op:
  \<^verbatim>\<open>fDraws[i].fTextureIdx = map[fDraws[i].fTextureIdx]\<close>.
\<close>

fun remap_draws :: "int list \<Rightarrow> Draw list \<Rightarrow> fault + Draw list" where
  "remap_draws m [] = Inr []"
| "remap_draws m (d # ds) =
     (if \<not> (0 \<le> fTextureIdx d \<and> fTextureIdx d < int (length m)) then Inl OutOfBounds
      else (case remap_draws m ds of
              Inl e \<Rightarrow> Inl e
            | Inr ds' \<Rightarrow> Inr (d\<lparr>fTextureIdx := m ! nat (fTextureIdx d)\<rparr> # ds')))"

text \<open>
  Modelled from the spec: \<^verbatim>\<open>GrOp::joinBounds\<close> is not among the source files. The spec
  says the destination bounds are unioned.
\<close>

definition joinBounds :: "SkRect \<Rightarrow> SkRect \<Rightarrow> SkRect" where
  "joinBounds a b =
     \<lparr> fLeft = min (fLeft a) (fLeft b), fTop = min (fTop a) (fTop b),
       fRight = max (fRight a) (fRight b), fBottom = max (fBottom a) (fBottom b) \<rparr>"

text \<open>The three statements both successful paths of \<^verbatim>\<open>onCombineIfPossible\<close> end with.\<close>

definition combine_tail :: "TextureOp \<Rightarrow> TextureOp \<Rightarrow> TextureOp" where
  "combine_tail this that =
     this\<lparr> fBounds := joinBounds (fBounds this) (fBounds that),
           fMaxApproxDstPixelArea :=
             max (fMaxApproxDstPixelArea that) (fMaxApproxDstPixelArea this),
           fPerspective := (fPerspective this \<or> fPerspective that) \<rparr>"

text \<open>
  \<^verbatim>\<open>onCombineIfPossible\<close>. The result is the returned flag, this op afterwards and the
  reference-count calls made. The other op is \<^verbatim>\<open>const\<close> in the source: nothing writes
  to it, and the model returns no new value for it. \<^verbatim>\<open>fProxyCnt\<close> is a \<^verbatim>\<open>uint8_t\<close>; the
  sum stored in it is at most \<^verbatim>\<open>kMaxTextures\<close> by the check in \<^verbatim>\<open>mergeProxies\<close>.
\<close>

definition onCombineIfPossible ::
  "bool \<Rightarrow> GrShaderCaps \<Rightarrow> TextureOp \<Rightarrow> TextureOp \<Rightarrow>
   fault + (bool \<times> TextureOp \<times> RefEvent list)" where
  "onCombineIfPossible android shaderCaps this that =
     (if \<not> Equals (fColorSpaceXform this) (fColorSpaceXform that) then Inr (False, this, [])
      else if fAAType this \<noteq> fAAType that then Inr (False, this, [])
      else if SupportsMultitexture shaderCaps \<and> fColorSpaceXform this = None \<and>
              fMaxApproxDstPixelArea this \<le>
                disableImageMultitexturingDstRectAreaThreshold shaderCaps \<and>
              fMaxApproxDstPixelArea that \<le>
                disableImageMultitexturingDstRectAreaThreshold shaderCaps
      then
        (case mergeProxies android this that shaderCaps of
           Inl e \<Rightarrow> Inl e
         | Inr None \<Rightarrow> Inr (False, this, [])
         | Inr (Some (m, numNewProxies)) \<Rightarrow>
             if numNewProxies < 0 then Inr (False, this, [])
             else
               (let this1 = (if 1 = fProxyCnt this \<and> numNewProxies \<noteq> 0
                             then this\<lparr> fProxyArray := [fProxy0 this],
                                        fFilterArray := [fFilter0 this] \<rparr>
                             else this);
                    this2 = this1\<lparr> fProxyCnt := nat (int (fProxyCnt this1) + numNewProxies) \<rparr>
                in case absorb_proxies (kMaxTextures android) (slots that) 0
                          (fProxyArray this2, fFilterArray this2, m, []) of
                     Inl e \<Rightarrow> Inl e
                   | Inr (ps, fs, m', evs) \<Rightarrow>
                       (case remap_draws m' (fDraws that) of
                          Inl e \<Rightarrow> Inl e
                        | Inr ds \<Rightarrow>
                            Inr (True,
                                 combine_tail
                                   (this2\<lparr> fProxyArray := ps, fFilterArray := fs,
                                           fDraws := fDraws this @ ds \<rparr>) that,
                                 evs))))
      else if fProxyCnt this > 1 \<or> fProxyCnt that > 1 then Inr (False, this, [])
      else if uniqueID (fProxy0 this) \<noteq> uniqueID (fProxy0 that) \<or>
              fFilter0 this \<noteq> fFilter0 that then Inr (False, this, [])
      else Inr (True, combine_tail (this\<lparr> fDraws := fDraws this @ fDraws that \<rparr>) that, []))"

section \<open>Submission at flush\<close>














text \<open>
  What the op asks of its \<^verbatim>\<open>Target\<close>: whether a proxy instantiates, a vertex buffer
  and start vertex for a stride and a vertex count (or none), the shared quad index
  buffer (or none), the size of that buffer in quads, and the shader caps.
\<close>

record Target =
  instantiate :: "GrTextureProxy \<Rightarrow> bool"
  makeVertexSpace :: "nat \<Rightarrow> nat \<Rightarrow> (nat \<times> nat) option"
  refQuadIndexBuffer :: "nat option"
  QuadCountOfQuadBuffer :: nat
  shaderCaps :: GrShaderCaps


section \<open>Well-formed batches\<close>

text \<open>
  What holds of every batch the operations above produce, for a build and a set of
  capabilities: it has at least one texture; past the first texture the slots written
  in the heap block are exactly the \<^verbatim>\<open>fProxyCnt\<close> slots in use, and the batch grew only
  because the hardware supports multi-texturing; the texture count is within the
  sampler cap, or is 1; the textures are distinct by \<^verbatim>\<open>uniqueID\<close>; and every draw's
  texture index names one of the slots in use.
\<close>

definition op_ok :: "bool \<Rightarrow> GrShaderCaps \<Rightarrow> TextureOp \<Rightarrow> bool" where
  "op_ok android caps op =
     (1 \<le> fProxyCnt op \<and>
      (if 1 < fProxyCnt op
       then length (fProxyArray op) = fProxyCnt op \<and>
            length (fFilterArray op) = fProxyCnt op \<and> SupportsMultitexture caps
       else True) \<and>
      int (fProxyCnt op) \<le> max 1 (min (maxFragmentSamplers caps) (kMaxTextures android)) \<and>
      distinct (map uniqueID (proxies op)) \<and>
      list_all (\<lambda>d. 0 \<le> fTextureIdx d \<and> fTextureIdx d < int (fProxyCnt op)) (fDraws op))"

section \<open>What a merge computes\<close>

text \<open>
  The loops of \<^verbatim>\<open>mergeProxies\<close> and \<^verbatim>\<open>onCombineIfPossible\<close> are described below by
  plain list functions, to which the theorems relate them. \<open>slot_index u xs\<close> is the
  first position in \<open>xs\<close> of a texture with identity \<open>u\<close>, and the length of \<open>xs\<close> when
  there is none.
\<close>

fun slot_index :: "nat \<Rightarrow> (GrTextureProxy \<times> Filter) list \<Rightarrow> nat" where
  "slot_index u [] = 0"
| "slot_index u ((q, g) # rest) = (if uniqueID q = u then 0 else Suc (slot_index u rest))"

definition slot_ids :: "(GrTextureProxy \<times> Filter) list \<Rightarrow> nat list" where
  "slot_ids xs = map (\<lambda>(q, g). uniqueID q) xs"

text \<open>
  The map entry of a texture of the other batch after the first loop nest: the slot
  of this batch that holds the same texture, or the fill value \<open>c\<close>.
\<close>

definition shared_slot :: "(GrTextureProxy \<times> Filter) list \<Rightarrow> int \<Rightarrow> GrTextureProxy \<times> Filter \<Rightarrow> int" where
  "shared_slot thisSlots c x =
     (if uniqueID (fst x) \<in> set (slot_ids thisSlots)
      then int (slot_index (uniqueID (fst x)) thisSlots) else c)"

text \<open>
  The textures of the other batch that this batch does not hold, in order.
\<close>

definition new_slots ::
  "(GrTextureProxy \<times> Filter) list \<Rightarrow> (GrTextureProxy \<times> Filter) list \<Rightarrow>
   (GrTextureProxy \<times> Filter) list" where
  "new_slots thisSlots thatSlots =
     filter (\<lambda>x. uniqueID (fst x) \<notin> set (slot_ids thisSlots)) thatSlots"

text \<open>
  The map entries after the second loop of \<^verbatim>\<open>mergeProxies\<close> (\<open>assigned\<close>: a new texture
  has the negated number of its slot) and after the loop of \<^verbatim>\<open>onCombineIfPossible\<close>
  (\<open>final_map\<close>: it has the number of its slot).
\<close>

fun assigned :: "(GrTextureProxy \<times> Filter \<Rightarrow> int) \<Rightarrow> (GrTextureProxy \<times> Filter) list \<Rightarrow> int \<Rightarrow> int list" where
  "assigned h [] nextSlot = []"
| "assigned h (x # rest) nextSlot =
     (if h x < 0 then - nextSlot # assigned h rest (nextSlot + 1)
      else h x # assigned h rest nextSlot)"

fun final_map :: "(GrTextureProxy \<times> Filter \<Rightarrow> int) \<Rightarrow> (GrTextureProxy \<times> Filter) list \<Rightarrow> int \<Rightarrow> int list" where
  "final_map h [] nextSlot = []"
| "final_map h (x # rest) nextSlot =
     (if h x < 0 then nextSlot # final_map h rest (nextSlot + 1)
      else h x # final_map h rest nextSlot)"

text \<open>
  The two checks the second loop of \<^verbatim>\<open>mergeProxies\<close> makes on a texture of the other
  batch: the config of slot 0, and the plain 2D sampler type once it is instantiated.
\<close>

definition sampler_ok :: "nat \<Rightarrow> GrTextureProxy \<times> Filter \<Rightarrow> bool" where
  "sampler_ok cfg x = (config (fst x) = cfg \<and>
     (case peekTexture (fst x) of Some tex \<Rightarrow> samplerType tex = kTexture2DSampler_GrSLType
      | None \<Rightarrow> True))"

section \<open>Batches the code produces, and the lifetime of a batch\<close>

text \<open>
  For a build and a set of capabilities, the batches that can exist: what the
  constructor returns, what \<^verbatim>\<open>finalize\<close> leaves, and what \<^verbatim>\<open>onCombineIfPossible\<close>
  leaves of a batch, merged or not, when it is called with another such batch.
\<close>

inductive reachable :: "bool \<Rightarrow> GrShaderCaps \<Rightarrow> TextureOp \<Rightarrow> bool"
  for android :: bool and caps :: GrShaderCaps where
  constructed:
    "TextureOp_ctor proxy filter0 color srcRect quad bounds hasPerspective aaType csxf
       allowSRGBInputs = Inr op \<Longrightarrow> reachable android caps op"
| finalized:
    "reachable android caps op \<Longrightarrow> finalize op = Inr (op', evs) \<Longrightarrow>
     reachable android caps op'"
| combined:
    "reachable android caps this \<Longrightarrow> reachable android caps that \<Longrightarrow>
     onCombineIfPossible android caps this that = Inr (r, this', evs) \<Longrightarrow>
     reachable android caps this'"

text \<open>
  The calls made on one batch between its construction and its destruction, in order:
  \<^verbatim>\<open>finalize\<close>, and \<^verbatim>\<open>onCombineIfPossible\<close> with another batch. \<open>run_calls\<close> makes them
  one after the other, from a batch and the reference-count calls so far, and stops
  at the first fault. \<open>lifetime\<close> makes them on a new batch and then destroys it; it
  returns the batch as it was destroyed and every reference-count call of its life.
\<close>

datatype call = Finalize | Combine TextureOp

fun run_calls ::
  "bool \<Rightarrow> GrShaderCaps \<Rightarrow> call list \<Rightarrow> TextureOp \<times> RefEvent list \<Rightarrow>
   fault + (TextureOp \<times> RefEvent list)" where
  "run_calls android caps [] st = Inr st"
| "run_calls android caps (Finalize # cs) (op, evlog) =
     (case finalize op of
        Inl e \<Rightarrow> Inl e
      | Inr (op', evs) \<Rightarrow> run_calls android caps cs (op', evlog @ evs))"
| "run_calls android caps (Combine that # cs) (op, evlog) =
     (case onCombineIfPossible android caps op that of
        Inl e \<Rightarrow> Inl e
      | Inr (r, op', evs) \<Rightarrow> run_calls android caps cs (op', evlog @ evs))"

definition lifetime ::
  "bool \<Rightarrow> GrShaderCaps \<Rightarrow> TextureOp \<Rightarrow> call list \<Rightarrow> fault + (TextureOp \<times> RefEvent list)" where
  "lifetime android caps op0 cs =
     (case run_calls android caps cs (op0, []) of
        Inl e \<Rightarrow> Inl e
      | Inr (op, evlog) \<Rightarrow>
          (case TextureOp_dtor op of
             Inl e \<Rightarrow> Inl e
           | Inr evs \<Rightarrow> Inr (op, evlog @ evs)))"

text \<open>The other batches handed to the merges of a call list.\<close>

fun others :: "call list \<Rightarrow> TextureOp list" where
  "others [] = []"
| "others (Finalize # cs) = others cs"
| "others (Combine that # cs) = that # others cs"

text \<open>
  The reference-count calls a batch has made so far, as its state determines them: the
  pending read and the unref of \<^verbatim>\<open>finalize\<close> on the first texture once it is finalized,
  then one pending read for each texture a merge added.
\<close>

definition log_ok :: "TextureOp \<Rightarrow> RefEvent list \<Rightarrow> bool" where
  "log_ok op evlog =
     (evlog =
        (if fFinalized op
         then [AddPendingRead (uniqueID (hd (proxies op))), Unref (uniqueID (hd (proxies op)))]
         else []) @
        map AddPendingRead (map uniqueID (tl (proxies op))))"

section \<open>Fixtures\<close>

text \<open>
  Concrete textures, batches and capabilities at which the theorems below are
  instantiated: a batch as the constructor leaves it for one 100 by 100 draw.
\<close>

definition fixture_proxy :: "nat \<Rightarrow> GrSLType option \<Rightarrow> GrTextureProxy" where
  "fixture_proxy uid sampler =
     \<lparr> uniqueID = uid, config = 0, origin = kTopLeft_GrSurfaceOrigin,
       peekTexture = map_option (\<lambda>s. \<lparr> samplerType = s, width = 64, height = 64 \<rparr>) sampler \<rparr>"

definition fixture_rect :: SkRect where
  "fixture_rect = \<lparr> fLeft = 0, fTop = 0, fRight = 100, fBottom = 100 \<rparr>"

definition fixture_quad :: GrPerspQuad where
  "fixture_quad = [(0, 0, 1), (0, 100, 1), (100, 0, 1), (100, 100, 1)]"

definition fixture_op :: "GrTextureProxy \<Rightarrow> Filter \<Rightarrow> GrAAType \<Rightarrow> GrColorSpaceXform option \<Rightarrow> TextureOp" where
  "fixture_op proxy filter0 aaType csxf =
     \<lparr> fDraws = [\<lparr> fSrcRect = fixture_rect, fTextureIdx = 0, fQuad = fixture_quad,
                   fColor = 0 \<rparr>],
       fColorSpaceXform = csxf, fProxy0 = proxy, fProxyArray = [], fFilterArray = [],
       fMaxApproxDstPixelArea = 10000, fFilter0 = filter0, fProxyCnt = 1, fAAType = aaType,
       fPerspective = False, fFinalized = False, fAllowSRGBInputs = False,
       fBounds = fixture_rect \<rparr>"

definition fixture_caps :: "int \<Rightarrow> GrShaderCaps" where
  "fixture_caps samplers =
     \<lparr> integerSupport = True, maxFragmentSamplers = samplers,
       disableImageMultitexturingDstRectAreaThreshold = 65536 \<rparr>"



text \<open>
  The first batch once finalized, and what the batch of texture 1 is after it has
  absorbed the batch of texture 2, unfinalized or finalized.
\<close>

definition fixture_finalized :: "GrTextureProxy \<Rightarrow> Filter \<Rightarrow> GrAAType \<Rightarrow> GrColorSpaceXform option \<Rightarrow> TextureOp" where
  "fixture_finalized proxy filter0 aaType csxf =
     (fixture_op proxy filter0 aaType csxf)\<lparr> fFinalized := True \<rparr>"

definition fixture_merged :: "bool \<Rightarrow> TextureOp" where
  "fixture_merged fin =
     \<lparr> fDraws = [\<lparr> fSrcRect = fixture_rect, fTextureIdx = 0, fQuad = fixture_quad,
                   fColor = 0 \<rparr>,
                 \<lparr> fSrcRect = fixture_rect, fTextureIdx = 1, fQuad = fixture_quad,
                   fColor = 0 \<rparr>],
       fColorSpaceXform = None, fProxy0 = fixture_proxy 1 None,
       fProxyArray = [fixture_proxy 1 None, fixture_proxy 2 None],
       fFilterArray = [kNearest, kNearest],
       fMaxApproxDstPixelArea = 10000, fFilter0 = kNearest, fProxyCnt = 2, fAAType = kNone,
       fPerspective = False, fFinalized = fin, fAllowSRGBInputs = False,
       fBounds = fixture_rect \<rparr>"

declare next_pow2_loop.simps [simp del]

section \<open>Properties of the selector\<close>

lemma next_pow2_loop_least:
  "p = 2 ^ j \<Longrightarrow> \<exists>k. next_pow2_loop p n = 2 ^ k \<and> j \<le> k \<and>
     (n \<le> 2 ^ k) \<and> (k = j \<or> 2 ^ (k - 1) < n)"
proof (induction p n arbitrary: j rule: next_pow2_loop.induct)
  case (1 p n)
  show ?case
  proof (cases "p < n")
    case True
    have pos: "0 < p" using 1(2) by simp
    have "2 * p = 2 ^ Suc j" using 1(2) by simp
    from 1(1) [OF _ this] pos True
    obtain k where k: "next_pow2_loop (2 * p) n = 2 ^ k" "Suc j \<le> k"
        "n \<le> 2 ^ k" "k = Suc j \<or> 2 ^ (k - 1) < n"
      by blast
    have eq: "next_pow2_loop p n = next_pow2_loop (2 * p) n"
      using True pos by (subst next_pow2_loop.simps) simp
    have "2 ^ (k - 1) < n"
    proof (cases "k = Suc j")
      case True
      then show ?thesis using \<open>p < n\<close> 1(2) by simp
    next
      case False
      then show ?thesis using k(4) by simp
    qed
    then show ?thesis
      using k eq by (intro exI [of _ k]) simp
  next
    case False
    then have "next_pow2_loop p n = p"
      by (subst next_pow2_loop.simps) simp
    with False 1(2) show ?thesis
      by (intro exI [of _ j]) simp
  qed
qed

lemma SkNextPow2_least:
  "\<exists>k. SkNextPow2 n = 2 ^ k \<and> n \<le> 2 ^ k \<and> (k = 0 \<or> 2 ^ (k - 1) < n)"
  using next_pow2_loop_least [of 1 0 n] by (simp add: SkNextPow2_def)


text \<open>
  C1. For a request \<open>n\<close> between 1 and the hard maximum that the hardware's fragment
  samplers allow, the selector returns 1 slot for one texture, 4 slots for two to four
  textures, and otherwise the least power of two that is at least \<open>n\<close>, capped by the
  hard maximum and by the hardware limit. With the hard maximum 8 and at least 8
  hardware samplers, the requests 1 to 9 (clamped to the maximum) get 1, 4, 4, 4, 8, 8,
  8, 8, 8 slots.
\<close>

theorem NumSamplersToUse_rounding:
  assumes "1 \<le> n" and "n \<le> kMaxTextures android" and "n \<le> maxFragmentSamplers caps"
  shows "(\<exists>k. n \<le> 2 ^ k \<and> (k = 0 \<or> 2 ^ (k - 1) < n) \<and>
            NumSamplersToUse android n caps =
              Inr (if n = 1 then 1 else if n \<le> 4 then 4
                   else min (2 ^ k) (min (kMaxTextures android) (maxFragmentSamplers caps))))
         \<and> (8 \<le> maxFragmentSamplers caps \<longrightarrow>
              map (\<lambda>r. NumSamplersToUse False (min r 8) caps) [1, 2, 3, 4, 5, 6, 7, 8, 9] =
                map Inr [1, 4, 4, 4, 8, 8, 8, 8, 8])"
proof
  obtain k where k: "SkNextPow2 n = 2 ^ k" "n \<le> 2 ^ k" "k = 0 \<or> 2 ^ (k - 1) < n"
    using SkNextPow2_least [of n] by blast
  show "\<exists>k. n \<le> 2 ^ k \<and> (k = 0 \<or> 2 ^ (k - 1) < n) \<and>
            NumSamplersToUse android n caps =
              Inr (if n = 1 then 1 else if n \<le> 4 then 4
                   else min (2 ^ k) (min (kMaxTextures android) (maxFragmentSamplers caps)))"
    using assms k by (intro exI [of _ k]) (simp add: NumSamplersToUse_def)
next
  have p: "SkNextPow2 5 = 8" "SkNextPow2 6 = 8" "SkNextPow2 7 = 8" "SkNextPow2 8 = 8"
    by (simp_all add: SkNextPow2_def next_pow2_loop.simps)
  show "8 \<le> maxFragmentSamplers caps \<longrightarrow>
              map (\<lambda>r. NumSamplersToUse False (min r 8) caps) [1, 2, 3, 4, 5, 6, 7, 8, 9] =
                map Inr [1, 4, 4, 4, 8, 8, 8, 8, 8]"
    by (simp add: NumSamplersToUse_def kMaxTextures_def p)
qed

theorem NumSamplersToUse_rounding_witness:
  "NumSamplersToUse False 5 (fixture_caps 16) = Inr 8 \<and>
   map (\<lambda>r. NumSamplersToUse False (min r 8) (fixture_caps 16)) [1, 2, 3, 4, 5, 6, 7, 8, 9] =
     map Inr [1, 4, 4, 4, 8, 8, 8, 8, 8]"
proof -
  have h: "(1::int) \<le> 5" "5 \<le> kMaxTextures False" "5 \<le> maxFragmentSamplers (fixture_caps 16)"
    "8 \<le> maxFragmentSamplers (fixture_caps 16)"
    by (simp_all add: kMaxTextures_def fixture_caps_def)
  from NumSamplersToUse_rounding [OF h(1,2,3)] h(4)
  obtain k where k: "(5::int) \<le> 2 ^ k" "k = 0 \<or> 2 ^ (k - 1) < (5::int)"
     "NumSamplersToUse False 5 (fixture_caps 16) = Inr (min (2 ^ k) (min (kMaxTextures False) (maxFragmentSamplers (fixture_caps 16))))"
     and l: "map (\<lambda>r. NumSamplersToUse False (min r 8) (fixture_caps 16)) [1, 2, 3, 4, 5, 6, 7, 8, 9] =
     map Inr [1, 4, 4, 4, 8, 8, 8, 8, 8]"
    by auto
  have "(2::int) ^ k \<ge> 8"
  proof (rule ccontr)
    assume "\<not> (8::int) \<le> 2 ^ k"
    then have "(2::int) ^ k < 2 ^ 3" by simp
    then have "k < 3" by (simp only: power_strict_increasing_iff) 
    then have "k = 0 \<or> k = 1 \<or> k = 2" by arith
    with k(1) show False by auto
  qed
  with k(3) have "NumSamplersToUse False 5 (fixture_caps 16) = Inr 8"
    by (simp add: kMaxTextures_def fixture_caps_def)
  with l show ?thesis by simp
qed

section \<open>Merging two single-texture batches\<close>

lemma slots_single: "fProxyCnt op = 1 \<Longrightarrow> slots op = [(fProxy0 op, fFilter0 op)]"
  by (simp add: slots_def proxies_def filters_def)

lemma proxies_single: "fProxyCnt op = 1 \<Longrightarrow> proxies op = [fProxy0 op]"
  by (simp add: proxies_def)

lemma kMaxTextures_ge4: "4 \<le> kMaxTextures android"
  by (simp add: kMaxTextures_def)

lemma replicate_kMax:
  "replicate (nat (kMaxTextures android)) v =
     v # replicate (nat (kMaxTextures android) - 1) v"
  by (cases "nat (kMaxTextures android)") (simp_all add: kMaxTextures_def split: if_splits)

lemma mergeProxies_two_singles:
  assumes "fProxyCnt this = 1" and "fProxyCnt that = 1"
    and "uniqueID (fProxy0 this) \<noteq> uniqueID (fProxy0 that)"
    and "2 \<le> min (maxFragmentSamplers caps) (kMaxTextures android)"
    and "config (fProxy0 that) = config (fProxy0 this)"
    and "case peekTexture (fProxy0 that) of None \<Rightarrow> True
         | Some tex \<Rightarrow> samplerType tex = kTexture2DSampler_GrSLType"
  shows "mergeProxies android this that caps =
           Inr (Some ((- 1) # replicate (nat (kMaxTextures android) - 1) (- kMaxTextures android), 1))"
  using assms kMaxTextures_ge4 [of android]
  by (simp add: mergeProxies_def slots_single proxies_single replicate_kMax [of android]
        split: option.splits)

lemma remap_draws_const:
  "list_all (\<lambda>d. fTextureIdx d = 0) ds \<Longrightarrow>
   remap_draws (k # m) ds = Inr (map (\<lambda>d. d\<lparr>fTextureIdx := k\<rparr>) ds)"
  by (induction ds) simp_all

lemmas fixture_defs =
  fixture_op_def fixture_proxy_def fixture_caps_def fixture_rect_def fixture_quad_def
  fixture_finalized_def fixture_merged_def

lemmas combine_defs =
  onCombineIfPossible_def mergeProxies_def slots_def proxies_def filters_def Equals_def
  SupportsMultitexture_def kMaxTextures_def array_store_def combine_tail_def joinBounds_def

section \<open>The loops of a merge\<close>

lemma slot_index_le: "slot_index u xs \<le> length xs"
  by (induction xs) auto

lemma slot_index_less_iff: "slot_index u xs < length xs \<longleftrightarrow> u \<in> set (slot_ids xs)"
  by (induction xs) (auto simp: slot_ids_def)

lemma slot_index_id:
  "slot_index u xs < length xs \<Longrightarrow> uniqueID (fst (xs ! slot_index u xs)) = u"
proof (induction xs)
  case Nil
  then show ?case by simp
next
  case (Cons x xs)
  obtain q g where x: "x = (q, g)" by (cases x)
  show ?case
  proof (cases "uniqueID q = u")
    case True
    then show ?thesis by (simp add: x)
  next
    case False
    with Cons show ?thesis by (simp add: x)
  qed
qed

lemma nth_slot_ids: "j < length xs \<Longrightarrow> slot_ids xs ! j = uniqueID (fst (xs ! j))"
  by (simp add: slot_ids_def split: prod.splits)

lemma nth_in_slot_ids: "j < length xs \<Longrightarrow> uniqueID (fst (xs ! j)) \<in> set (slot_ids xs)"
  using nth_mem [of j "slot_ids xs"] by (simp add: nth_slot_ids) (simp add: slot_ids_def)

lemma slot_index_nth:
  "distinct (slot_ids xs) \<Longrightarrow> j < length xs \<Longrightarrow> slot_index (uniqueID (fst (xs ! j))) xs = j"
proof (induction xs arbitrary: j)
  case Nil
  then show ?case by simp
next
  case (Cons x xs)
  obtain q g where x: "x = (q, g)" by (cases x)
  show ?case
  proof (cases j)
    case 0
    then show ?thesis by (simp add: x)
  next
    case (Suc k)
    with Cons.prems have k: "k < length xs" by simp
    have d: "distinct (slot_ids xs)" "uniqueID q \<notin> set (slot_ids xs)"
      using Cons.prems(1) by (simp_all add: slot_ids_def x)
    from nth_in_slot_ids [OF k] d(2) have "uniqueID q \<noteq> uniqueID (fst (xs ! k))"
      by auto
    with Cons.IH [OF d(1) k] Suc show ?thesis
      by (simp add: x)
  qed
qed

lemma merge_match_eq:
  "merge_match p f i rest j (m, s) =
     (if slot_index (uniqueID p) rest < length rest then
        (if snd (rest ! slot_index (uniqueID p) rest) \<noteq> f then Inr None
         else if j + slot_index (uniqueID p) rest < length m
         then Inr (Some (m[j + slot_index (uniqueID p) rest := i], s + 1))
         else Inl OutOfBounds)
      else Inr (Some (m, s)))"
proof (induction rest arbitrary: j)
  case Nil
  show ?case by simp
next
  case (Cons x rest)
  obtain q g where x: "x = (q, g)" by (cases x)
  show ?case
  proof (cases "uniqueID q = uniqueID p")
    case True
    then show ?thesis by (auto simp: x)
  next
    case False
    then have "merge_match p f i (x # rest) j (m, s) = merge_match p f i rest (Suc j) (m, s)"
      by (auto simp: x)
    with False show ?thesis
      by (simp add: Cons.IH x)
  qed
qed

lemma merge_shared_pointwise:
  assumes "merge_shared rest i0 T (m, s) = Inr (Some (m', s'))"
    and "distinct (slot_ids rest)" and "distinct (slot_ids T)"
  shows "length m' = length m \<and>
         s' = s + int (length (filter (\<lambda>x. uniqueID (fst x) \<in> set (slot_ids T)) rest)) \<and>
         (\<forall>j < length m. m' ! j =
            (if j < length T \<and> uniqueID (fst (T ! j)) \<in> set (slot_ids rest)
             then i0 + int (slot_index (uniqueID (fst (T ! j))) rest) else m ! j))"
  using assms
proof (induction rest arbitrary: i0 m s)
  case Nil
  then show ?case by (simp add: slot_ids_def)
next
  case (Cons x rest)
  obtain p f where x: "x = (p, f)" by (cases x)
  let ?k = "slot_index (uniqueID p) T"
  have d: "distinct (slot_ids rest)" "uniqueID p \<notin> set (slot_ids rest)"
    using Cons.prems(2) by (simp_all add: slot_ids_def x)
  show ?case
  proof (cases "?k < length T")
    case True
    then have pin: "uniqueID p \<in> set (slot_ids T)" by (simp add: slot_index_less_iff)
    have idk: "uniqueID (fst (T ! ?k)) = uniqueID p" by (rule slot_index_id [OF True])
    from Cons.prems(1) True
    have mm: "merge_match p f i0 T 0 (m, s) = Inr (Some (m[?k := i0], s + 1))" and km: "?k < length m"
      and rec: "merge_shared rest (i0 + 1) T (m[?k := i0], s + 1) = Inr (Some (m', s'))"
      by (auto simp: x merge_match_eq split: if_splits)
    from Cons.IH [OF rec d(1) Cons.prems(3)]
    have ih: "length m' = length m"
      "s' = s + 1 + int (length (filter (\<lambda>x. uniqueID (fst x) \<in> set (slot_ids T)) rest))"
      "\<And>j. j < length m \<Longrightarrow> m' ! j =
            (if j < length T \<and> uniqueID (fst (T ! j)) \<in> set (slot_ids rest)
             then i0 + 1 + int (slot_index (uniqueID (fst (T ! j))) rest) else m[?k := i0] ! j)"
      by simp_all
    have pw: "m' ! j =
            (if j < length T \<and> uniqueID (fst (T ! j)) \<in> set (slot_ids (x # rest))
             then i0 + int (slot_index (uniqueID (fst (T ! j))) (x # rest)) else m ! j)"
      if j: "j < length m" for j
    proof (cases "j < length T \<and> uniqueID (fst (T ! j)) = uniqueID p")
      case True
      then have "slot_index (uniqueID (fst (T ! j))) T = j"
        using slot_index_nth [OF Cons.prems(3), of j] by simp
      with True have jk: "j = ?k" by metis
      with True d(2) ih(3) [OF j] j show ?thesis
        by (simp add: x slot_ids_def)
    next
      case False
      then have "j \<noteq> ?k" using idk \<open>?k < length T\<close> by auto
      with False ih(3) [OF j] show ?thesis
        by (auto simp: x slot_ids_def)
    qed
    from ih(1,2) pin pw show ?thesis by (simp add: x)
  next
    case False
    then have pin: "uniqueID p \<notin> set (slot_ids T)" by (simp add: slot_index_less_iff)
    from Cons.prems(1) False
    have rec: "merge_shared rest (i0 + 1) T (m, s) = Inr (Some (m', s'))"
      by (auto simp: x merge_match_eq split: if_splits)
    from Cons.IH [OF rec d(1) Cons.prems(3)]
    have ih: "length m' = length m"
      "s' = s + int (length (filter (\<lambda>x. uniqueID (fst x) \<in> set (slot_ids T)) rest))"
      "\<And>j. j < length m \<Longrightarrow> m' ! j =
            (if j < length T \<and> uniqueID (fst (T ! j)) \<in> set (slot_ids rest)
             then i0 + 1 + int (slot_index (uniqueID (fst (T ! j))) rest) else m ! j)"
      by simp_all
    have pw: "m' ! j =
            (if j < length T \<and> uniqueID (fst (T ! j)) \<in> set (slot_ids (x # rest))
             then i0 + int (slot_index (uniqueID (fst (T ! j))) (x # rest)) else m ! j)"
      if j: "j < length m" for j
    proof (cases "j < length T")
      case True
      from nth_in_slot_ids [OF True] pin have "uniqueID (fst (T ! j)) \<noteq> uniqueID p" by auto
      with ih(3) [OF j] show ?thesis by (auto simp: x slot_ids_def)
    next
      case False
      with ih(3) [OF j] show ?thesis by simp
    qed
    from ih(1,2) pin pw show ?thesis by (simp add: x)
  qed
qed

lemma merge_shared_no_fault:
  "length T \<le> length m \<Longrightarrow> merge_shared rest i0 T (m, s) \<noteq> Inl e"
proof (induction rest arbitrary: i0 m s)
  case Nil
  show ?case by simp
next
  case (Cons x rest)
  obtain p f where x: "x = (p, f)" by (cases x)
  show ?case
  proof (cases "merge_match p f i0 T 0 (m, s)")
    case (Inl e')
    with Cons.prems show ?thesis
      by (auto simp: merge_match_eq split: if_splits)
  next
    case (Inr r)
    show ?thesis
    proof (cases r)
      case None
      with Inr show ?thesis by (simp add: x)
    next
      case (Some st)
      obtain m1 s1 where st: "st = (m1, s1)" by (cases st)
      from Inr Some st have "length m1 = length m"
        by (auto simp: merge_match_eq split: if_splits)
      with Cons.IH [of m1 "i0 + 1" s1] Cons.prems Inr Some st show ?thesis
        by (simp add: x)
    qed
  qed
qed

lemma merge_shared_mismatch:
  assumes "distinct (slot_ids T)" and "(p, f) \<in> set rest" and "(q, g) \<in> set T"
    and "uniqueID p = uniqueID q" and "f \<noteq> g"
  shows "merge_shared rest i0 T (m, s) \<noteq> Inr (Some r)"
  using assms(2)
proof (induction rest arbitrary: i0 m s)
  case Nil
  then show ?case by simp
next
  case (Cons x rest)
  obtain p' f' where x: "x = (p', f')" by (cases x)
  show ?case
  proof (cases "x = (p, f)")
    case True
    from assms(3) obtain j where j: "j < length T" "T ! j = (q, g)"
      by (auto simp: in_set_conv_nth)
    with slot_index_nth [OF assms(1) j(1)] assms(4)
    have "slot_index (uniqueID p) T = j" by simp
    with j assms(5) have "merge_match p f i0 T 0 (m, s) = Inr None"
      by (simp add: merge_match_eq)
    with True show ?thesis by simp
  next
    case False
    with Cons.prems have "(p, f) \<in> set rest" by simp
    from Cons.IH [OF this] show ?thesis
      by (simp add: x split: sum.splits option.splits)
  qed
qed

lemma merge_shared_list:
  assumes r: "merge_shared S 0 T (replicate K c, 0) = Inr (Some (m', s'))"
    and dS: "distinct (slot_ids S)" and dT: "distinct (slot_ids T)" and len: "length T \<le> K"
  shows "m' = map (shared_slot S c) T @ replicate (K - length T) c"
    and "s' = int (length (filter (\<lambda>x. uniqueID (fst x) \<in> set (slot_ids T)) S))"
proof -
  from merge_shared_pointwise [OF r dS dT]
  have l: "length m' = K"
    and s: "s' = int (length (filter (\<lambda>x. uniqueID (fst x) \<in> set (slot_ids T)) S))"
    and pw: "\<And>j. j < K \<Longrightarrow> m' ! j =
            (if j < length T \<and> uniqueID (fst (T ! j)) \<in> set (slot_ids S)
             then int (slot_index (uniqueID (fst (T ! j))) S) else replicate K c ! j)"
    by simp_all
  show "s' = int (length (filter (\<lambda>x. uniqueID (fst x) \<in> set (slot_ids T)) S))" by (rule s)
  show "m' = map (shared_slot S c) T @ replicate (K - length T) c"
  proof (rule nth_equalityI)
    show "length m' = length (map (shared_slot S c) T @ replicate (K - length T) c)"
      using l len by simp
  next
    fix j assume "j < length m'"
    with l have j: "j < K" by simp
    show "m' ! j = (map (shared_slot S c) T @ replicate (K - length T) c) ! j"
      using pw [OF j] j by (simp add: nth_append shared_slot_def)
  qed
qed

lemma merge_assign_list:
  "merge_assign cfg T (length pre) (pre @ map h T @ post, nextSlot) =
     (if list_all (sampler_ok cfg) T then Inr (Some (pre @ assigned h T nextSlot @ post))
      else Inr None)"
proof (induction T arbitrary: pre nextSlot)
  case Nil
  show ?case by simp
next
  case (Cons x T)
  obtain q g where x: "x = (q, g)" by (cases x)
  have a: "(pre @ h x # map h T @ post) ! length pre = h x" by simp
  have b: "(pre @ h x # map h T @ post)[length pre := v] = (pre @ [v]) @ map h T @ post" for v
    by simp
  have c: "pre @ h x # map h T @ post = (pre @ [h x]) @ map h T @ post" by simp
  have l: "Suc (length pre) = length (pre @ [v])" for v :: int by simp
  show ?case
  proof (cases "sampler_ok cfg x")
    case False
    then show ?thesis
      by (auto simp: x sampler_ok_def split: option.splits)
  next
    case True
    show ?thesis
    proof (cases "h x < 0")
      case neg: True
      have "merge_assign cfg (x # T) (length pre) (pre @ map h (x # T) @ post, nextSlot) =
            merge_assign cfg T (length (pre @ [- nextSlot]))
              ((pre @ [- nextSlot]) @ map h T @ post, nextSlot + 1)"
        using True neg unfolding x
        by (simp add: sampler_ok_def split: option.splits)
      also have "\<dots> = (if list_all (sampler_ok cfg) T
                        then Inr (Some ((pre @ [- nextSlot]) @ assigned h T (nextSlot + 1) @ post))
                        else Inr None)"
        by (rule Cons.IH)
      finally show ?thesis using True neg by simp
    next
      case pos: False
      have "merge_assign cfg (x # T) (length pre) (pre @ map h (x # T) @ post, nextSlot) =
            merge_assign cfg T (length (pre @ [h x]))
              ((pre @ [h x]) @ map h T @ post, nextSlot)"
        using True pos unfolding x
        by (simp add: sampler_ok_def split: option.splits)
      also have "\<dots> = (if list_all (sampler_ok cfg) T
                        then Inr (Some ((pre @ [h x]) @ assigned h T nextSlot @ post))
                        else Inr None)"
        by (rule Cons.IH)
      finally show ?thesis using True pos by simp
    qed
  qed
qed

lemma absorb_proxies_list:
  assumes "nextSlot = int (length ps)" and "length fs = length ps" and "1 \<le> nextSlot"
    and "nextSlot + int (length (filter (\<lambda>x. h x < 0) T)) \<le> cap"
  shows "absorb_proxies cap T (length pre) (ps, fs, pre @ assigned h T nextSlot @ post, evs) =
           Inr (ps @ map fst (filter (\<lambda>x. h x < 0) T),
                fs @ map snd (filter (\<lambda>x. h x < 0) T),
                pre @ final_map h T nextSlot @ post,
                evs @ map (\<lambda>x. AddPendingRead (uniqueID (fst x))) (filter (\<lambda>x. h x < 0) T))"
  using assms
proof (induction T arbitrary: pre nextSlot ps fs evs)
  case Nil
  show ?case by simp
next
  case (Cons x T)
  obtain q g where x: "x = (q, g)" by (cases x)
  show ?case
  proof (cases "h x < 0")
    case neg: True
    let ?m = "pre @ assigned h (x # T) nextSlot @ post"
    have m: "?m = pre @ (- nextSlot) # assigned h T (nextSlot + 1) @ post"
      using neg by simp
    have at: "?m ! length pre = - nextSlot" unfolding m by simp
    have upd: "?m[length pre := nextSlot] = (pre @ [nextSlot]) @ assigned h T (nextSlot + 1) @ post"
      unfolding m by simp
    have cap: "nextSlot < cap" using Cons.prems(4) neg by simp
    have st1: "array_store cap ps nextSlot q = Inr (ps @ [q])"
      using Cons.prems(1) cap by (simp add: array_store_def)
    have st2: "array_store cap fs nextSlot g = Inr (fs @ [g])"
      using Cons.prems(1,2) cap by (simp add: array_store_def)
    have step: "absorb_proxies cap (x # T) (length pre) (ps, fs, ?m, evs) =
          absorb_proxies cap T (length (pre @ [nextSlot]))
            (ps @ [q], fs @ [g], (pre @ [nextSlot]) @ assigned h T (nextSlot + 1) @ post,
             evs @ [AddPendingRead (uniqueID q)])"
      unfolding x absorb_proxies.simps
      using at upd st1 st2 Cons.prems(3) unfolding x by simp
    have ih: "absorb_proxies cap T (length (pre @ [nextSlot]))
            (ps @ [q], fs @ [g], (pre @ [nextSlot]) @ assigned h T (nextSlot + 1) @ post,
             evs @ [AddPendingRead (uniqueID q)]) =
           Inr ((ps @ [q]) @ map fst (filter (\<lambda>x. h x < 0) T),
                (fs @ [g]) @ map snd (filter (\<lambda>x. h x < 0) T),
                (pre @ [nextSlot]) @ final_map h T (nextSlot + 1) @ post,
                (evs @ [AddPendingRead (uniqueID q)]) @
                  map (\<lambda>x. AddPendingRead (uniqueID (fst x))) (filter (\<lambda>x. h x < 0) T))"
      using Cons.prems neg by (intro Cons.IH) simp_all
    show ?thesis
      unfolding step ih using neg by (simp add: x)
  next
    case pos: False
    let ?m = "pre @ assigned h (x # T) nextSlot @ post"
    have m: "?m = (pre @ [h x]) @ assigned h T nextSlot @ post"
      using pos by simp
    have at: "?m ! length pre = h x" unfolding m by simp
    have step: "absorb_proxies cap (x # T) (length pre) (ps, fs, ?m, evs) =
          absorb_proxies cap T (length (pre @ [h x]))
            (ps, fs, (pre @ [h x]) @ assigned h T nextSlot @ post, evs)"
      unfolding x absorb_proxies.simps
      using at pos m unfolding x by simp
    have ih: "absorb_proxies cap T (length (pre @ [h x]))
            (ps, fs, (pre @ [h x]) @ assigned h T nextSlot @ post, evs) =
           Inr (ps @ map fst (filter (\<lambda>x. h x < 0) T),
                fs @ map snd (filter (\<lambda>x. h x < 0) T),
                (pre @ [h x]) @ final_map h T nextSlot @ post,
                evs @ map (\<lambda>x. AddPendingRead (uniqueID (fst x))) (filter (\<lambda>x. h x < 0) T))"
      using Cons.prems pos by (intro Cons.IH) simp_all
    show ?thesis
      unfolding step ih using pos by simp
  qed
qed

lemma length_final_map: "length (final_map h T nextSlot) = length T"
  by (induction T arbitrary: nextSlot) auto

lemma final_map_bounds:
  assumes "0 \<le> nextSlot" and "list_all (\<lambda>x. h x < nextSlot) T"
  shows "list_all (\<lambda>v. 0 \<le> v \<and> v < nextSlot + int (length (filter (\<lambda>x. h x < 0) T)))
           (final_map h T nextSlot)"
  using assms
proof (induction T arbitrary: nextSlot)
  case Nil
  show ?case by simp
next
  case (Cons x T)
  show ?case
  proof (cases "h x < 0")
    case True
    have "list_all (\<lambda>x. h x < nextSlot + 1) T"
      using Cons.prems(2) by (auto simp: list_all_iff)
    with Cons.IH [of "nextSlot + 1"] Cons.prems(1)
    have "list_all (\<lambda>v. 0 \<le> v \<and> v < nextSlot + 1 + int (length (filter (\<lambda>x. h x < 0) T)))
           (final_map h T (nextSlot + 1))" by simp
    with True Cons.prems(1) show ?thesis by (simp add: add.assoc)
  next
    case False
    from Cons.IH [OF Cons.prems(1)] Cons.prems(2)
    have "list_all (\<lambda>v. 0 \<le> v \<and> v < nextSlot + int (length (filter (\<lambda>x. h x < 0) T)))
           (final_map h T nextSlot)" by simp
    with False Cons.prems show ?thesis by simp
  qed
qed

lemma remap_draws_eq:
  "list_all (\<lambda>d. 0 \<le> fTextureIdx d \<and> fTextureIdx d < int (length m)) ds \<Longrightarrow>
   remap_draws m ds = Inr (map (\<lambda>d. d\<lparr>fTextureIdx := m ! nat (fTextureIdx d)\<rparr>) ds)"
  by (induction ds) simp_all

lemma shared_count:
  assumes "distinct (slot_ids S)" and "distinct (slot_ids T)"
  shows "int (length T) - int (length (filter (\<lambda>x. uniqueID (fst x) \<in> set (slot_ids T)) S)) =
         int (length (new_slots S T))"
proof -
  have f: "length (filter (\<lambda>x. uniqueID (fst x) \<in> A) xs) = length (filter (\<lambda>u. u \<in> A) (slot_ids xs))"
    for A xs
    by (induction xs) (auto simp: slot_ids_def)
  have "length (filter (\<lambda>x. uniqueID (fst x) \<in> set (slot_ids T)) S) =
        card (set (slot_ids S) \<inter> set (slot_ids T))"
    unfolding f using assms(1) by (simp add: distinct_length_filter Int_commute)
  also have "\<dots> = length (filter (\<lambda>x. uniqueID (fst x) \<in> set (slot_ids S)) T)"
    unfolding f using assms(2) by (simp add: distinct_length_filter Int_commute)
  finally have "length (filter (\<lambda>x. uniqueID (fst x) \<in> set (slot_ids T)) S) =
                length (filter (\<lambda>x. uniqueID (fst x) \<in> set (slot_ids S)) T)" .
  moreover have "length T = length (filter (\<lambda>x. uniqueID (fst x) \<in> set (slot_ids S)) T) +
                   length (new_slots S T)"
    unfolding new_slots_def by (rule sum_length_filter_compl [symmetric])
  ultimately show ?thesis by simp
qed

lemma slot_ids_zip: "length ps = length fs \<Longrightarrow> slot_ids (zip ps fs) = map uniqueID ps"
  by (induction ps fs rule: list_induct2) (simp_all add: slot_ids_def)

lemma op_ok_facts:
  assumes "op_ok android caps op"
  shows "length (slots op) = fProxyCnt op"
    and "1 \<le> fProxyCnt op"
    and "slot_ids (slots op) = map uniqueID (proxies op)"
    and "distinct (slot_ids (slots op))"
    and "int (fProxyCnt op) \<le> kMaxTextures android"
    and "map fst (slots op) = proxies op"
    and "map snd (slots op) = filters op"
    and "length (proxies op) = fProxyCnt op"
    and "length (filters op) = fProxyCnt op"
proof -
  have l: "length (proxies op) = fProxyCnt op" "length (filters op) = fProxyCnt op"
    using assms by (auto simp: op_ok_def proxies_def filters_def split: if_splits)
  then have s: "slots op = zip (proxies op) (filters op)"
    by (simp add: slots_def)
  show "length (slots op) = fProxyCnt op" using l by (simp add: s)
  show "1 \<le> fProxyCnt op" using assms by (simp add: op_ok_def)
  show i: "slot_ids (slots op) = map uniqueID (proxies op)"
    unfolding s using l by (intro slot_ids_zip) simp
  show "distinct (slot_ids (slots op))"
    unfolding i using assms by (simp add: op_ok_def)
  show "int (fProxyCnt op) \<le> kMaxTextures android"
    using assms by (auto simp: op_ok_def kMaxTextures_def split: if_splits)
  show "map fst (slots op) = proxies op" unfolding s using l by simp
  show "map snd (slots op) = filters op" unfolding s using l by simp
  show "length (proxies op) = fProxyCnt op" "length (filters op) = fProxyCnt op" by (rule l)+
qed

lemma shared_slot_neg:
  "c < 0 \<Longrightarrow> shared_slot S c x < 0 \<longleftrightarrow> uniqueID (fst x) \<notin> set (slot_ids S)"
  by (simp add: shared_slot_def)

lemma filter_shared_slot:
  "c < 0 \<Longrightarrow> filter (\<lambda>x. shared_slot S c x < 0) T = new_slots S T"
  by (simp add: new_slots_def shared_slot_neg)

lemma shared_slot_less: "c < 0 \<Longrightarrow> shared_slot S c x < int (length S)"
  using slot_index_less_iff [of "uniqueID (fst x)" S]
  by (auto simp: shared_slot_def)

lemma mergeProxies_cases:
  assumes okA: "op_ok android caps this" and okB: "op_ok android caps that"
  shows "mergeProxies android this that caps = Inr None \<or>
         (mergeProxies android this that caps =
            Inr (Some (assigned (shared_slot (slots this) (- kMaxTextures android)) (slots that)
                         (int (fProxyCnt this)) @
                       replicate (nat (kMaxTextures android) - fProxyCnt that)
                         (- kMaxTextures android),
                       int (length (new_slots (slots this) (slots that))))) \<and>
          int (fProxyCnt this) + int (length (new_slots (slots this) (slots that)))
            \<le> min (maxFragmentSamplers caps) (kMaxTextures android))"
proof -
  let ?S = "slots this" and ?T = "slots that"
  let ?K = "nat (kMaxTextures android)" and ?c = "- kMaxTextures android"
  note a = op_ok_facts [OF okA] and b = op_ok_facts [OF okB]
  have lenT: "length ?T \<le> ?K" using b(1,5) by simp
  have len0: "length ?T \<le> length (replicate ?K ?c)" using lenT by simp
  obtain p0 ps where p0: "proxies this = p0 # ps"
    using a(8,2) by (cases "proxies this") auto
  show ?thesis
  proof (cases "merge_shared ?S 0 ?T (replicate ?K ?c, 0)")
    case (Inl e)
    with merge_shared_no_fault [OF len0] show ?thesis by blast
  next
    case (Inr r)
    show ?thesis
    proof (cases r)
      case None
      with Inr show ?thesis by (simp add: mergeProxies_def)
    next
      case (Some st)
      obtain m1 s where st: "st = (m1, s)" by (cases st)
      from Inr Some st have r: "merge_shared ?S 0 ?T (replicate ?K ?c, 0) = Inr (Some (m1, s))"
        by simp
      note l = merge_shared_list [OF r a(4) b(4) lenT]
      have n: "int (fProxyCnt that) - s = int (length (new_slots ?S ?T))"
        using shared_count [OF a(4) b(4)] l(2) b(1) by simp
      have m1: "m1 = [] @ map (shared_slot ?S ?c) ?T @ replicate (?K - fProxyCnt that) ?c"
        using l(1) b(1) by simp
      have ma: "merge_assign (config p0) ?T 0 (m1, int (fProxyCnt this)) =
          (if list_all (sampler_ok (config p0)) ?T
           then Inr (Some ([] @ assigned (shared_slot ?S ?c) ?T (int (fProxyCnt this)) @
                             replicate (?K - fProxyCnt that) ?c))
           else Inr None)"
        unfolding m1 using merge_assign_list [of "config p0" ?T "[]"] by simp
      show ?thesis
        using r n p0 ma by (auto simp: mergeProxies_def Let_def)
    qed
  qed
qed

lemma absorb_proxies_list':
  assumes "1 \<le> nextSlot"
    and "filter (\<lambda>x. h x < 0) T = [] \<or>
         (nextSlot = int (length ps) \<and> length fs = length ps \<and>
          nextSlot + int (length (filter (\<lambda>x. h x < 0) T)) \<le> cap)"
  shows "absorb_proxies cap T (length pre) (ps, fs, pre @ assigned h T nextSlot @ post, evs) =
           Inr (ps @ map fst (filter (\<lambda>x. h x < 0) T),
                fs @ map snd (filter (\<lambda>x. h x < 0) T),
                pre @ final_map h T nextSlot @ post,
                evs @ map (\<lambda>x. AddPendingRead (uniqueID (fst x))) (filter (\<lambda>x. h x < 0) T))"
proof (cases "filter (\<lambda>x. h x < 0) T = []")
  case False
  with assms show ?thesis by (intro absorb_proxies_list) simp_all
next
  case True
  then have pos: "list_all (\<lambda>x. \<not> h x < 0) T"
    by (simp add: filter_empty_conv list_all_iff)
  have "absorb_proxies cap T (length pre) (ps, fs, pre @ assigned h T nextSlot @ post, evs) =
          Inr (ps, fs, pre @ final_map h T nextSlot @ post, evs)"
    using pos
  proof (induction T arbitrary: pre)
    case Nil
    show ?case by simp
  next
    case (Cons x T)
    obtain q g where x: "x = (q, g)" by (cases x)
    from Cons.prems have hx: "\<not> h x < 0" and rest: "list_all (\<lambda>x. \<not> h x < 0) T" by simp_all
    have m: "pre @ assigned h (x # T) nextSlot @ post = (pre @ [h x]) @ assigned h T nextSlot @ post"
      using hx by simp
    have at: "(pre @ assigned h (x # T) nextSlot @ post) ! length pre = h x" unfolding m by simp
    have "absorb_proxies cap (x # T) (length pre) (ps, fs, pre @ assigned h (x # T) nextSlot @ post, evs) =
          absorb_proxies cap T (length (pre @ [h x]))
            (ps, fs, (pre @ [h x]) @ assigned h T nextSlot @ post, evs)"
      unfolding x absorb_proxies.simps using at hx m unfolding x by simp
    also have "\<dots> = Inr (ps, fs, (pre @ [h x]) @ final_map h T nextSlot @ post, evs)"
      by (rule Cons.IH [OF rest])
    finally show ?case using hx by simp
  qed
  with True show ?thesis by simp
qed

lemma new_slots_distinct:
  assumes "distinct (slot_ids S)" and "distinct (slot_ids T)"
  shows "distinct (slot_ids S @ slot_ids (new_slots S T))"
proof -
  have 1: "slot_ids (new_slots S T) = filter (\<lambda>u. u \<notin> set (slot_ids S)) (slot_ids T)"
    by (induction T) (auto simp: new_slots_def slot_ids_def)
  show ?thesis unfolding 1 using assms by auto
qed

lemma slot_ids_map_fst: "slot_ids xs = map uniqueID (map fst xs)"
  by (simp add: slot_ids_def split_def)

lemma combine_multi_success:
  fixes this that :: TextureOp and android :: bool
  defines "S \<equiv> slots this" and "T \<equiv> slots that"
  defines "h \<equiv> shared_slot (slots this) (- kMaxTextures android)"
  defines "new \<equiv> new_slots (slots this) (slots that)"
  defines "fm \<equiv> final_map (shared_slot (slots this) (- kMaxTextures android)) (slots that)
                   (int (fProxyCnt this))"
  assumes okA: "op_ok android caps this" and okB: "op_ok android caps that"
    and eq: "Equals (fColorSpaceXform this) (fColorSpaceXform that)"
    and aa: "fAAType this = fAAType that"
    and multi: "SupportsMultitexture caps \<and> fColorSpaceXform this = None \<and>
              fMaxApproxDstPixelArea this \<le>
                disableImageMultitexturingDstRectAreaThreshold caps \<and>
              fMaxApproxDstPixelArea that \<le>
                disableImageMultitexturingDstRectAreaThreshold caps"
    and mp: "mergeProxies android this that caps =
            Inr (Some (assigned h T (int (fProxyCnt this)) @
                       replicate (nat (kMaxTextures android) - fProxyCnt that)
                         (- kMaxTextures android),
                       int (length new)))"
    and le: "int (fProxyCnt this) + int (length new)
            \<le> min (maxFragmentSamplers caps) (kMaxTextures android)"
  shows "\<exists>this'. onCombineIfPossible android caps this that =
                    Inr (True, this', map (\<lambda>x. AddPendingRead (uniqueID (fst x))) new) \<and>
           fProxyCnt this' = fProxyCnt this + length new \<and>
           proxies this' = proxies this @ map fst new \<and>
           filters this' = filters this @ map snd new \<and>
           fDraws this' = fDraws this @
              map (\<lambda>d. d\<lparr>fTextureIdx := fm ! nat (fTextureIdx d)\<rparr>) (fDraws that) \<and>
           fFinalized this' = fFinalized this \<and>
           (if 1 < fProxyCnt this'
            then length (fProxyArray this') = fProxyCnt this' \<and>
                 length (fFilterArray this') = fProxyCnt this'
            else True)"
proof -
  let ?K = "nat (kMaxTextures android)" and ?c = "- kMaxTextures android"
  note a = op_ok_facts [OF okA] and b = op_ok_facts [OF okB]
  have c0: "?c < 0" by (simp add: kMaxTextures_def)
  have filt: "filter (\<lambda>x. h x < 0) T = new"
    unfolding h_def T_def new_def by (rule filter_shared_slot [OF c0])
  define arr where "arr = (if 1 = fProxyCnt this \<and> int (length new) \<noteq> 0
                            then [fProxy0 this] else fProxyArray this)"
  define farr where "farr = (if 1 = fProxyCnt this \<and> int (length new) \<noteq> 0
                            then [fFilter0 this] else fFilterArray this)"
  have arrs: "new = [] \<or> (length arr = fProxyCnt this \<and> length farr = fProxyCnt this \<and>
                arr = proxies this \<and> farr = filters this)"
    using okA by (auto simp: arr_def farr_def op_ok_def proxies_def filters_def split: if_splits)
  have pre: "filter (\<lambda>x. h x < 0) T = [] \<or>
         (int (fProxyCnt this) = int (length arr) \<and> length farr = length arr \<and>
          int (fProxyCnt this) + int (length (filter (\<lambda>x. h x < 0) T)) \<le> kMaxTextures android)"
    unfolding filt using arrs le by auto
  have one: "1 \<le> int (fProxyCnt this)" using a(2) by simp
  have ab: "absorb_proxies (kMaxTextures android) T 0
              (arr, farr,
               assigned h T (int (fProxyCnt this)) @ replicate (?K - fProxyCnt that) ?c, []) =
            Inr (arr @ map fst new, farr @ map snd new,
                 fm @ replicate (?K - fProxyCnt that) ?c,
                 map (\<lambda>x. AddPendingRead (uniqueID (fst x))) new)"
    using absorb_proxies_list' [OF one pre, of "[]" "replicate (?K - fProxyCnt that) ?c" "[]"]
    unfolding filt by (simp add: fm_def h_def T_def)
  have lenfm: "length (fm @ replicate (?K - fProxyCnt that) ?c) = ?K"
    using b(1,5) by (simp add: fm_def length_final_map)
  have dr: "list_all (\<lambda>d. 0 \<le> fTextureIdx d \<and>
              fTextureIdx d < int (length (fm @ replicate (?K - fProxyCnt that) ?c))) (fDraws that)"
    unfolding lenfm using okB b(5) by (auto simp: op_ok_def list_all_iff)
  have nth: "(fm @ replicate (?K - fProxyCnt that) ?c) ! nat (fTextureIdx d) = fm ! nat (fTextureIdx d)"
    if "d \<in> set (fDraws that)" for d
  proof -
    from that okB have "0 \<le> fTextureIdx d" "fTextureIdx d < int (fProxyCnt that)"
      by (auto simp: op_ok_def list_all_iff)
    then have "nat (fTextureIdx d) < length fm"
      using b(1) by (simp add: fm_def length_final_map)
    then show ?thesis by (simp add: nth_append)
  qed
  have rd: "remap_draws (fm @ replicate (?K - fProxyCnt that) ?c) (fDraws that) =
              Inr (map (\<lambda>d. d\<lparr>fTextureIdx := fm ! nat (fTextureIdx d)\<rparr>) (fDraws that))"
    unfolding remap_draws_eq [OF dr] using nth by simp
  define this' where "this' = combine_tail
       (this\<lparr> fProxyCnt := fProxyCnt this + length new,
              fProxyArray := arr @ map fst new, fFilterArray := farr @ map snd new,
              fDraws := fDraws this @
                 map (\<lambda>d. d\<lparr>fTextureIdx := fm ! nat (fTextureIdx d)\<rparr>) (fDraws that) \<rparr>) that"
  have n: "nat (int (fProxyCnt this) + int (length new)) = fProxyCnt this + length new"
    by simp
  have res: "onCombineIfPossible android caps this that =
               Inr (True, this', map (\<lambda>x. AddPendingRead (uniqueID (fst x))) new)"
  proof (cases "1 = fProxyCnt this \<and> int (length new) \<noteq> 0")
    case True
    then have arr: "arr = [fProxy0 this]" "farr = [fFilter0 this]"
      by (simp_all add: arr_def farr_def)
    show ?thesis
      unfolding onCombineIfPossible_def
      using eq aa multi True
      by (simp add: mp T_def [symmetric] Let_def ab [unfolded arr] rd this'_def arr n)
  next
    case False
    then have arr: "arr = fProxyArray this" "farr = fFilterArray this"
      by (auto simp: arr_def farr_def)
    show ?thesis
      unfolding onCombineIfPossible_def
      using eq aa multi False
      by (auto simp: mp T_def [symmetric] Let_def ab [unfolded arr] rd this'_def arr n)
  qed
  have f: "fProxyCnt this' = fProxyCnt this + length new"
    "fProxyArray this' = arr @ map fst new" "fFilterArray this' = farr @ map snd new"
    "fProxy0 this' = fProxy0 this" "fFilter0 this' = fFilter0 this"
    "fFinalized this' = fFinalized this"
    "fDraws this' = fDraws this @
              map (\<lambda>d. d\<lparr>fTextureIdx := fm ! nat (fTextureIdx d)\<rparr>) (fDraws that)"
    by (simp_all add: this'_def combine_tail_def)
  have px: "proxies this' = proxies this @ map fst new \<and> filters this' = filters this @ map snd new \<and>
            (if 1 < fProxyCnt this'
             then length (fProxyArray this') = fProxyCnt this' \<and>
                  length (fFilterArray this') = fProxyCnt this'
             else True)"
  proof (cases "new = []")
    case True
    then show ?thesis
      using okA by (simp add: f proxies_def filters_def arr_def farr_def op_ok_def)
  next
    case False
    then have "0 < length new" by simp
    with a(2) have "1 < fProxyCnt this + length new" by linarith
    with False arrs a(8,9) show ?thesis
      by (simp add: f proxies_def [of this'] filters_def [of this'])
  qed
  from res f px show ?thesis by blast
qed

lemma combine_total:
  fixes this that :: TextureOp and android :: bool
  defines "new \<equiv> new_slots (slots this) (slots that)"
  assumes okA: "op_ok android caps this" and okB: "op_ok android caps that"
  shows "\<exists>r this' evs. onCombineIfPossible android caps this that = Inr (r, this', evs) \<and>
           (if r then op_ok android caps this' \<and>
                     proxies this' = proxies this @ map fst new \<and>
                     filters this' = filters this @ map snd new \<and>
                     evs = map (\<lambda>x. AddPendingRead (uniqueID (fst x))) new \<and>
                     fProxyCnt this' = fProxyCnt this + length new \<and>
                     fFinalized this' = fFinalized this \<and>
                     length (fDraws this') = length (fDraws this) + length (fDraws that) \<and>
                     take (length (fDraws this)) (fDraws this') = fDraws this
            else this' = this \<and> evs = [])"
proof -
  note a = op_ok_facts [OF okA] and b = op_ok_facts [OF okB]
  let ?thr = "disableImageMultitexturingDstRectAreaThreshold caps"
  let ?multi = "SupportsMultitexture caps \<and> fColorSpaceXform this = None \<and>
              fMaxApproxDstPixelArea this \<le> ?thr \<and> fMaxApproxDstPixelArea that \<le> ?thr"
  consider (ne) "\<not> Equals (fColorSpaceXform this) (fColorSpaceXform that)"
    | (aa) "Equals (fColorSpaceXform this) (fColorSpaceXform that)" "fAAType this \<noteq> fAAType that"
    | (multi) "Equals (fColorSpaceXform this) (fColorSpaceXform that)" "fAAType this = fAAType that"
        "?multi"
    | (single) "Equals (fColorSpaceXform this) (fColorSpaceXform that)" "fAAType this = fAAType that"
        "\<not> ?multi"
    by blast
  moreover have F: ?thesis if "onCombineIfPossible android caps this that = Inr (False, this, [])"
    using that by (intro exI [of _ False] exI [of _ this] exI [of _ "[]"]) simp
  ultimately show ?thesis
  proof cases
    case ne
    then show ?thesis by (intro F) (simp add: onCombineIfPossible_def)
  next
    case aa
    then show ?thesis by (intro F) (simp add: onCombineIfPossible_def)
  next
    case multi
    let ?h = "shared_slot (slots this) (- kMaxTextures android)"
    let ?fm = "final_map ?h (slots that) (int (fProxyCnt this))"
    from mergeProxies_cases [OF okA okB]
    show ?thesis
    proof
      assume "mergeProxies android this that caps = Inr None"
      with multi show ?thesis by (intro F) (simp add: onCombineIfPossible_def)
    next
      assume mp: "mergeProxies android this that caps =
            Inr (Some (assigned ?h (slots that) (int (fProxyCnt this)) @
                       replicate (nat (kMaxTextures android) - fProxyCnt that)
                         (- kMaxTextures android),
                       int (length (new_slots (slots this) (slots that))))) \<and>
          int (fProxyCnt this) + int (length (new_slots (slots this) (slots that)))
            \<le> min (maxFragmentSamplers caps) (kMaxTextures android)"
      from combine_multi_success [OF okA okB multi(1,2,3) conjunct1 [OF mp] conjunct2 [OF mp]]
      obtain this' where r:
        "onCombineIfPossible android caps this that =
           Inr (True, this', map (\<lambda>x. AddPendingRead (uniqueID (fst x))) new)"
        "fProxyCnt this' = fProxyCnt this + length new"
        "proxies this' = proxies this @ map fst new"
        "filters this' = filters this @ map snd new"
        "fDraws this' = fDraws this @
              map (\<lambda>d. d\<lparr>fTextureIdx := ?fm ! nat (fTextureIdx d)\<rparr>) (fDraws that)"
        "fFinalized this' = fFinalized this"
        "if 1 < fProxyCnt this'
            then length (fProxyArray this') = fProxyCnt this' \<and>
                 length (fFilterArray this') = fProxyCnt this'
            else True"
        unfolding new_def by blast
      have c0: "- kMaxTextures android < 0" by (simp add: kMaxTextures_def)
      have le: "int (fProxyCnt this') \<le> min (maxFragmentSamplers caps) (kMaxTextures android)"
        using mp r(2) by (simp add: new_def)
      have d: "distinct (map uniqueID (proxies this'))"
        using new_slots_distinct [OF a(4) b(4)]
        unfolding r(3) a(3) new_def by (simp add: slot_ids_map_fst)
      have fmb: "list_all (\<lambda>v. 0 \<le> v \<and> v < int (fProxyCnt this'))  ?fm"
      proof -
        have "list_all (\<lambda>x. ?h x < int (fProxyCnt this)) (slots that)"
          using shared_slot_less [OF c0, of "slots this"] a(1) by (simp add: list_all_iff)
        from final_map_bounds [OF _ this, of ] 
        show ?thesis
          unfolding filter_shared_slot [OF c0] r(2) new_def by simp
      qed
      have dv1: "list_all (\<lambda>d. 0 \<le> fTextureIdx d \<and> fTextureIdx d < int (fProxyCnt this'))
                   (fDraws this)"
        using okA r(2) by (auto simp: op_ok_def list_all_iff)
      have dv2: "list_all (\<lambda>d. 0 \<le> fTextureIdx d \<and> fTextureIdx d < int (fProxyCnt this'))
                   (map (\<lambda>d. d\<lparr>fTextureIdx := ?fm ! nat (fTextureIdx d)\<rparr>) (fDraws that))"
      proof -
        have "0 \<le> ?fm ! nat (fTextureIdx d) \<and> ?fm ! nat (fTextureIdx d) < int (fProxyCnt this')"
          if "d \<in> set (fDraws that)" for d
        proof -
          from that okB have "0 \<le> fTextureIdx d" "fTextureIdx d < int (fProxyCnt that)"
            by (auto simp: op_ok_def list_all_iff)
          then have "nat (fTextureIdx d) < length ?fm"
            using b(1) by (simp add: length_final_map)
          with fmb show ?thesis by (simp add: list_all_length)
        qed
        then show ?thesis by (simp add: list_all_iff)
      qed
      have ok': "op_ok android caps this'"
        unfolding op_ok_def
        using r(2,5,7) a(2) le d dv1 dv2 multi(3) by (auto split: if_splits)
      from r ok' show ?thesis by (intro exI [of _ True] exI [of _ this']) simp
    qed
  next
    case single
    show ?thesis
    proof (cases "fProxyCnt this > 1 \<or> fProxyCnt that > 1 \<or>
                  uniqueID (fProxy0 this) \<noteq> uniqueID (fProxy0 that) \<or>
                  fFilter0 this \<noteq> fFilter0 that")
      case True
      with single show ?thesis by (intro F) (auto simp: onCombineIfPossible_def)
    next
      case False
      with a(2) b(2) have one: "fProxyCnt this = 1" "fProxyCnt that = 1"
        and same: "uniqueID (fProxy0 this) = uniqueID (fProxy0 that)" "fFilter0 this = fFilter0 that"
        by auto
      define this' where
        "this' = combine_tail (this\<lparr> fDraws := fDraws this @ fDraws that \<rparr>) that"
      have r: "onCombineIfPossible android caps this that = Inr (True, this', [])"
        using single one same by (auto simp: onCombineIfPossible_def this'_def)
      have n: "new = []"
        using one same by (simp add: new_def new_slots_def slots_single slot_ids_def)
      have f: "fProxyCnt this' = 1" "proxies this' = proxies this" "filters this' = filters this"
        "fFinalized this' = fFinalized this" "fDraws this' = fDraws this @ fDraws that"
        using one by (simp_all add: this'_def combine_tail_def proxies_def filters_def)
      have ok': "op_ok android caps this'"
        using okA okB one f unfolding op_ok_def by (simp add: f)
      from r n f ok' one show ?thesis
        by (intro exI [of _ True] exI [of _ this'] exI [of _ "[]"]) simp
    qed
  qed
qed

section \<open>Batches the code produces\<close>

lemma ctor_op_ok:
  assumes "TextureOp_ctor proxy filter0 color srcRect quad bounds hasPerspective aaType csxf
       allowSRGBInputs = Inr op"
  shows "op_ok android caps op" and "\<not> fFinalized op" and "fProxyCnt op = 1"
    and "fProxy0 op = proxy" and "length (fDraws op) = 1"
  using assms
  by (auto simp: TextureOp_ctor_def op_ok_def proxies_def split: if_splits)

lemma finalize_op_ok:
  assumes "finalize op = Inr (op', evs)" and "op_ok android caps op"
  shows "op_ok android caps op'"
  using assms by (auto simp: finalize_def op_ok_def proxies_def split: if_splits)

lemma reachable_op_ok: "reachable android caps op \<Longrightarrow> op_ok android caps op"
proof (induction rule: reachable.induct)
  case (constructed proxy filter0 color srcRect quad bounds hasPerspective aaType csxf allowSRGBInputs op)
  then show ?case by (rule ctor_op_ok)
next
  case (finalized op op' evs)
  then show ?case by (auto intro: finalize_op_ok)
next
  case (combined this that r this' evs)
  from combine_total [OF combined.IH(1) combined.IH(2)] combined.hyps(3)
  show ?case using combined.IH(1) by (auto split: if_splits)
qed

lemma fixture_ctor:
  "aa \<noteq> kMixedSamples \<Longrightarrow>
   TextureOp_ctor p f 0 fixture_rect fixture_quad fixture_rect False aa cs False =
     Inr (fixture_op p f aa cs)"
  by (simp add: TextureOp_ctor_def fixture_op_def RectSizeAsSizeT_def fixture_rect_def)

lemma fixture_reachable:
  "aa \<noteq> kMixedSamples \<Longrightarrow> reachable android caps (fixture_op p f aa cs)"
  by (rule reachable.constructed [OF fixture_ctor])

lemma mergeProxies_mismatch:
  assumes okA: "op_ok android caps this" and okB: "op_ok android caps that"
    and "(p, f) \<in> set (slots this)" and "(q, g) \<in> set (slots that)"
    and "uniqueID p = uniqueID q" and "f \<noteq> g"
  shows "mergeProxies android this that caps = Inr None"
proof -
  note b = op_ok_facts [OF okB]
  let ?m0 = "(replicate (nat (kMaxTextures android)) (- kMaxTextures android), 0::int)"
  have len: "length (slots that) \<le> length (fst ?m0)" using b(1,5) by simp
  have "merge_shared (slots this) 0 (slots that) ?m0 = Inr None"
  proof (cases "merge_shared (slots this) 0 (slots that) ?m0")
    case (Inl e)
    with merge_shared_no_fault [of "slots that" "fst ?m0" "slots this" 0 0 e] len
    show ?thesis by simp
  next
    case (Inr r)
    with merge_shared_mismatch [OF b(4) assms(3-6), of 0 "fst ?m0" 0]
    show ?thesis by (cases r) auto
  qed
  then show ?thesis by (simp add: mergeProxies_def)
qed

lemma proxies_nonempty: "op_ok android caps op \<Longrightarrow> proxies op \<noteq> []"
  using op_ok_facts(2,8) [of android caps op] by auto

lemma finalize_step:
  assumes "finalize op = Inr (op', evs)" and "op_ok android caps op" and "log_ok op evlog"
  shows "op_ok android caps op'" and "log_ok op' (evlog @ evs)" and "proxies op' = proxies op"
    and "fFinalized op'" and "\<not> fFinalized op" and "fProxyCnt op = 1"
  using assms
  by (auto simp: finalize_def op_ok_def log_ok_def proxies_def split: if_splits)

lemma combine_step:
  assumes "onCombineIfPossible android caps op that = Inr (r, op', evs)"
    and okA: "op_ok android caps op" and okB: "op_ok android caps that" and "log_ok op evlog"
  shows "op_ok android caps op'" and "log_ok op' (evlog @ evs)"
    and "hd (proxies op') = hd (proxies op)"
    and "fFinalized op' = fFinalized op" and "fProxyCnt op \<le> fProxyCnt op'"
    and "fProxyCnt op' = fProxyCnt op \<Longrightarrow> evs = [] \<and> proxies op' = proxies op"
proof -
  from combine_total [OF okA okB] assms(1)
  have c: "if r then op_ok android caps op' \<and>
                     proxies op' = proxies op @ map fst (new_slots (slots op) (slots that)) \<and>
                     evs = map (\<lambda>x. AddPendingRead (uniqueID (fst x)))
                             (new_slots (slots op) (slots that)) \<and>
                     fProxyCnt op' = fProxyCnt op + length (new_slots (slots op) (slots that)) \<and>
                     fFinalized op' = fFinalized op
            else op' = op \<and> evs = []"
    by (auto split: if_splits)
  note ne = proxies_nonempty [OF okA]
  show "op_ok android caps op'" using c okA by (auto split: if_splits)
  show "log_ok op' (evlog @ evs)"
    using c assms(4) ne by (auto simp: log_ok_def comp_def split: if_splits)
  show "hd (proxies op') = hd (proxies op)" using c ne by (auto split: if_splits)
  show "fFinalized op' = fFinalized op" using c by (auto split: if_splits)
  show "fProxyCnt op \<le> fProxyCnt op'" using c by (auto split: if_splits)
  show "evs = [] \<and> proxies op' = proxies op" if "fProxyCnt op' = fProxyCnt op"
    using c that by (auto split: if_splits)
qed

lemma run_calls_inv:
  assumes "run_calls android caps cs (op, evlog) = Inr (op', evlog')"
    and "op_ok android caps op" and "log_ok op evlog"
    and "list_all (op_ok android caps) (others cs)"
  shows "op_ok android caps op' \<and> log_ok op' evlog' \<and> hd (proxies op') = hd (proxies op) \<and>
         fProxyCnt op \<le> fProxyCnt op' \<and>
         (fFinalized op \<longrightarrow> fFinalized op' \<and> Finalize \<notin> set cs) \<and>
         (fFinalized op' \<longleftrightarrow> fFinalized op \<or> Finalize \<in> set cs) \<and>
         count_list cs Finalize \<le> 1"
  using assms
proof (induction cs arbitrary: op evlog)
  case Nil
  then show ?case by simp
next
  case (Cons c cs)
  show ?case
  proof (cases c)
    case Finalize
    with Cons.prems(1) obtain op1 evs where f: "finalize op = Inr (op1, evs)"
      and rest: "run_calls android caps cs (op1, evlog @ evs) = Inr (op', evlog')"
      by (auto split: sum.splits)
    note s = finalize_step [OF f Cons.prems(2,3)]
    from Cons.IH [OF rest s(1,2)] Cons.prems(4) Finalize
    have ih: "op_ok android caps op' \<and> log_ok op' evlog' \<and> hd (proxies op') = hd (proxies op1) \<and>
         fProxyCnt op1 \<le> fProxyCnt op' \<and>
         (fFinalized op1 \<longrightarrow> fFinalized op' \<and> Finalize \<notin> set cs) \<and>
         (fFinalized op' \<longleftrightarrow> fFinalized op1 \<or> Finalize \<in> set cs) \<and>
         count_list cs Finalize \<le> 1"
      by simp
    have "fProxyCnt op1 = fProxyCnt op" using f by (auto simp: finalize_def split: if_splits)
    moreover from ih s(4) have "count_list cs Finalize = 0" by (simp add: count_list_0_iff)
    ultimately show ?thesis using ih s Finalize by simp
  next
    case (Combine that)
    with Cons.prems(1) obtain r op1 evs where
      m: "onCombineIfPossible android caps op that = Inr (r, op1, evs)"
      and rest: "run_calls android caps cs (op1, evlog @ evs) = Inr (op', evlog')"
      by (auto split: sum.splits)
    from Cons.prems(4) Combine have okB: "op_ok android caps that"
      and oth: "list_all (op_ok android caps) (others cs)" by simp_all
    note s = combine_step [OF m Cons.prems(2) okB Cons.prems(3)]
    from Cons.IH [OF rest s(1,2) oth] s(3,4,5) Combine show ?thesis by auto
  qed
qed

lemma run_calls_append:
  "run_calls android caps (pre @ post) st =
     (case run_calls android caps pre st of Inl e \<Rightarrow> Inl e
      | Inr st' \<Rightarrow> run_calls android caps post st')"
proof (induction pre arbitrary: st)
  case Nil
  show ?case by simp
next
  case (Cons c pre)
  obtain op evlog where st: "st = (op, evlog)" by (cases st)
  show ?case
    by (cases c) (auto simp: st Cons.IH split: sum.splits)
qed

lemma run_calls_stuck:
  assumes "run_calls android caps cs (op, evlog) = Inr (op', evlog')"
    and "op_ok android caps op" and "list_all (op_ok android caps) (others cs)"
    and "\<not> fFinalized op" and "1 < fProxyCnt op"
  shows "\<not> fFinalized op' \<and> 1 < fProxyCnt op'"
  using assms
proof (induction cs arbitrary: op evlog)
  case Nil
  then show ?case by simp
next
  case (Cons c cs)
  show ?case
  proof (cases c)
    case Finalize
    with Cons.prems(1,5) show ?thesis
      by (auto simp: finalize_def split: sum.splits if_splits)
  next
    case (Combine that)
    with Cons.prems(1) obtain r op1 evs where
      m: "onCombineIfPossible android caps op that = Inr (r, op1, evs)"
      and rest: "run_calls android caps cs (op1, evlog @ evs) = Inr (op', evlog')"
      by (auto split: sum.splits)
    from Cons.prems(3) Combine have okB: "op_ok android caps that"
      and oth: "list_all (op_ok android caps) (others cs)" by simp_all
    from combine_total [OF Cons.prems(2) okB] m
    have "op_ok android caps op1" "fFinalized op1 = fFinalized op" "fProxyCnt op \<le> fProxyCnt op1"
      using Cons.prems(2) by (auto split: if_splits)
    with Cons.IH [OF rest _ oth] Cons.prems(4,5) show ?thesis by simp
  qed
qed



lemma lifetime_cases:
  assumes ctor: "TextureOp_ctor proxy filter0 color srcRect quad bounds hasPerspective aaType csxf
       allowSRGBInputs = Inr op0"
    and oth: "list_all (reachable android caps) (others cs)"
    and lt: "lifetime android caps op0 cs = Inr (op, evlog)"
  shows "op_ok android caps op" and "hd (proxies op) = proxy"
    and "fFinalized op \<longleftrightarrow> Finalize \<in> set cs" and "count_list cs Finalize \<le> 1"
    and "fFinalized op \<Longrightarrow>
           evlog = AddPendingRead (uniqueID proxy) # Unref (uniqueID proxy) #
                   map AddPendingRead (map uniqueID (tl (proxies op))) @
                   map CompletedRead (map uniqueID (proxies op))"
    and "\<not> fFinalized op \<Longrightarrow> evlog = [Unref (uniqueID proxy)] \<and> proxies op = [proxy]"
    and "TextureOp_dtor op =
           Inr (if fFinalized op then map CompletedRead (map uniqueID (proxies op))
                else [Unref (uniqueID proxy)])"
proof -
  note c = ctor_op_ok(1) [OF ctor, of android caps] ctor_op_ok(2-5) [OF ctor]
  have l0: "log_ok op0 []" using c(2,3) by (simp add: log_ok_def proxies_def)
  have oth': "list_all (op_ok android caps) (others cs)"
    using oth by (auto simp: list_all_iff intro: reachable_op_ok)
  from lt obtain evlog1 evs where run: "run_calls android caps cs (op0, []) = Inr (op, evlog1)"
    and d: "TextureOp_dtor op = Inr evs" and ev: "evlog = evlog1 @ evs"
    by (auto simp: lifetime_def split: sum.splits)
  from run_calls_inv [OF run c(1) l0 oth'] c(2)
  have inv: "op_ok android caps op" "log_ok op evlog1" "hd (proxies op) = hd (proxies op0)"
    "fFinalized op \<longleftrightarrow> Finalize \<in> set cs" "count_list cs Finalize \<le> 1"
    by simp_all
  have h0: "hd (proxies op0) = proxy" using c(3,4) by (simp add: proxies_def)
  show "op_ok android caps op" by (rule inv(1))
  show hd: "hd (proxies op) = proxy" using inv(3) h0 by simp
  show "fFinalized op \<longleftrightarrow> Finalize \<in> set cs" by (rule inv(4))
  show "count_list cs Finalize \<le> 1" by (rule inv(5))
  note f = op_ok_facts [OF inv(1)]
  show "evlog = AddPendingRead (uniqueID proxy) # Unref (uniqueID proxy) #
                   map AddPendingRead (map uniqueID (tl (proxies op))) @
                   map CompletedRead (map uniqueID (proxies op))" if "fFinalized op"
  proof -
    have "evs = map CompletedRead (map uniqueID (proxies op))"
      using d that f(6) by (auto simp: TextureOp_dtor_def split_def comp_def simp flip: f(6))
    with inv(2) that hd ev show ?thesis by (simp add: log_ok_def)
  qed
  show "evlog = [Unref (uniqueID proxy)] \<and> proxies op = [proxy]" if "\<not> fFinalized op"
  proof -
    from d that have one: "fProxyCnt op = 1" and evs: "evs = [Unref (uniqueID (fProxy0 op))]"
      by (auto simp: TextureOp_dtor_def split: if_splits)
    from one have p: "proxies op = [fProxy0 op]" by (simp add: proxies_def)
    with hd have "fProxy0 op = proxy" by simp
    with inv(2) that ev evs p show ?thesis by (simp add: log_ok_def)
  qed
  show "TextureOp_dtor op =
           Inr (if fFinalized op then map CompletedRead (map uniqueID (proxies op))
                else [Unref (uniqueID proxy)])"
  proof (cases "fFinalized op")
    case True
    with d f(6) show ?thesis
      by (auto simp: TextureOp_dtor_def split_def comp_def simp flip: f(6))
  next
    case False
    with d have one: "fProxyCnt op = 1"
      by (auto simp: TextureOp_dtor_def split: if_splits)
    then have "proxies op = [fProxy0 op]" by (simp add: proxies_def)
    with hd have "fProxy0 op = proxy" by simp
    with False one show ?thesis by (simp add: TextureOp_dtor_def)
  qed
qed

lemma others_append: "others (xs @ ys) = others xs @ others ys"
  by (induction xs rule: others.induct) simp_all

lemmas life_defs = lifetime_def finalize_def TextureOp_dtor_def

section \<open>Merging: the claims\<close>

text \<open>
  C2, as the spec states it, asks of the second texture that its pixel config and its
  sampler type match those of slot 0. The code compares the config with slot 0, but it
  never compares sampler types: it rejects every instantiated texture of the other
  batch whose sampler type is not the plain 2D one. Two batches whose textures both
  have the external sampler type, with equal configs, meet every condition of the claim
  and are not merged.
\<close>

theorem combine_sampler_type_counterexample:
  "fProxyCnt (fixture_op (fixture_proxy 1 (Some kTextureExternalSampler_GrSLType))
                kNearest kNone None) = 1 \<and>
   fProxyCnt (fixture_op (fixture_proxy 2 (Some kTextureExternalSampler_GrSLType))
                kNearest kNone None) = 1 \<and>
   uniqueID (fixture_proxy 1 (Some kTextureExternalSampler_GrSLType)) \<noteq>
     uniqueID (fixture_proxy 2 (Some kTextureExternalSampler_GrSLType)) \<and>
   fAAType (fixture_op (fixture_proxy 1 (Some kTextureExternalSampler_GrSLType))
              kNearest kNone None) =
     fAAType (fixture_op (fixture_proxy 2 (Some kTextureExternalSampler_GrSLType))
                kNearest kNone None) \<and>
   fColorSpaceXform (fixture_op (fixture_proxy 1 (Some kTextureExternalSampler_GrSLType))
                       kNearest kNone None) = None \<and>
   fColorSpaceXform (fixture_op (fixture_proxy 2 (Some kTextureExternalSampler_GrSLType))
                       kNearest kNone None) = None \<and>
   SupportsMultitexture (fixture_caps 8) \<and>
   fMaxApproxDstPixelArea (fixture_op (fixture_proxy 1 (Some kTextureExternalSampler_GrSLType))
                             kNearest kNone None)
     \<le> disableImageMultitexturingDstRectAreaThreshold (fixture_caps 8) \<and>
   fMaxApproxDstPixelArea (fixture_op (fixture_proxy 2 (Some kTextureExternalSampler_GrSLType))
                             kNearest kNone None)
     \<le> disableImageMultitexturingDstRectAreaThreshold (fixture_caps 8) \<and>
   2 \<le> min (maxFragmentSamplers (fixture_caps 8)) (kMaxTextures False) \<and>
   config (fixture_proxy 2 (Some kTextureExternalSampler_GrSLType)) =
     config (fixture_proxy 1 (Some kTextureExternalSampler_GrSLType)) \<and>
   map_option samplerType (peekTexture (fixture_proxy 2 (Some kTextureExternalSampler_GrSLType))) =
     map_option samplerType (peekTexture (fixture_proxy 1 (Some kTextureExternalSampler_GrSLType))) \<and>
   onCombineIfPossible False (fixture_caps 8)
     (fixture_op (fixture_proxy 1 (Some kTextureExternalSampler_GrSLType)) kNearest kNone None)
     (fixture_op (fixture_proxy 2 (Some kTextureExternalSampler_GrSLType)) kNearest kNone None) =
   Inr (False,
        fixture_op (fixture_proxy 1 (Some kTextureExternalSampler_GrSLType)) kNearest kNone None,
        [])"
  by (simp add: fixture_defs combine_defs)

text \<open>
  C2, amended. Two batches of one texture each, with different texture identities, the
  same anti-aliasing mode and no color-space transform, are merged when the hardware
  supports multi-texturing, both destination areas are within the threshold, two
  textures fit the sampler cap, the second texture has the config of slot 0 and, if it
  is instantiated, the plain 2D sampler type. The merged batch has two textures, this
  batch's and then the other's; one pending read is taken on the new texture; the draw
  list is this batch's draws followed by the other's, whose texture index now is 1;
  every index is valid and names the slot that holds the draw's own texture. The draws
  of a single-texture batch all have index 0.
\<close>

theorem combine_two_singles:
  assumes "fProxyCnt this = 1" and "fProxyCnt that = 1"
    and "uniqueID (fProxy0 this) \<noteq> uniqueID (fProxy0 that)"
    and "fAAType this = fAAType that"
    and "fColorSpaceXform this = None" and "fColorSpaceXform that = None"
    and "SupportsMultitexture caps"
    and "fMaxApproxDstPixelArea this \<le> disableImageMultitexturingDstRectAreaThreshold caps"
    and "fMaxApproxDstPixelArea that \<le> disableImageMultitexturingDstRectAreaThreshold caps"
    and "2 \<le> min (maxFragmentSamplers caps) (kMaxTextures android)"
    and "config (fProxy0 that) = config (fProxy0 this)"
    and "case peekTexture (fProxy0 that) of None \<Rightarrow> True
         | Some tex \<Rightarrow> samplerType tex = kTexture2DSampler_GrSLType"
    and "list_all (\<lambda>d. fTextureIdx d = 0) (fDraws this)"
    and "list_all (\<lambda>d. fTextureIdx d = 0) (fDraws that)"
  shows "\<exists>this'. onCombineIfPossible android caps this that =
                    Inr (True, this', [AddPendingRead (uniqueID (fProxy0 that))]) \<and>
           fProxyCnt this' = 2 \<and>
           proxies this' = [fProxy0 this, fProxy0 that] \<and>
           filters this' = [fFilter0 this, fFilter0 that] \<and>
           fDraws this' = fDraws this @ map (\<lambda>d. d\<lparr>fTextureIdx := 1\<rparr>) (fDraws that) \<and>
           list_all (\<lambda>d. 0 \<le> fTextureIdx d \<and> fTextureIdx d < int (fProxyCnt this') \<and>
                        proxies this' ! nat (fTextureIdx d) = fProxy0 this) (fDraws this) \<and>
           list_all (\<lambda>d. 0 \<le> fTextureIdx d \<and> fTextureIdx d < int (fProxyCnt this') \<and>
                        proxies this' ! nat (fTextureIdx d) = fProxy0 that)
             (drop (length (fDraws this)) (fDraws this'))"
proof -
  define ds where "ds = map (\<lambda>d. d\<lparr>fTextureIdx := 1\<rparr>) (fDraws that)"
  define this' where "this' = combine_tail
      (this\<lparr> fProxyArray := [fProxy0 this], fFilterArray := [fFilter0 this], fProxyCnt := 2,
             fProxyArray := [fProxy0 this, fProxy0 that],
             fFilterArray := [fFilter0 this, fFilter0 that],
             fDraws := fDraws this @ ds \<rparr>) that"
  have 4: "4 \<le> kMaxTextures android" by (rule kMaxTextures_ge4)
  have m: "mergeProxies android this that caps =
           Inr (Some ((- 1) # replicate (nat (kMaxTextures android) - 1) (- kMaxTextures android), 1))"
    using assms by (intro mergeProxies_two_singles) 
  have r: "remap_draws (1 # ms) (fDraws that) = Inr ds" for ms
    unfolding ds_def using assms(14) by (rule remap_draws_const)
  have res: "onCombineIfPossible android caps this that =
               Inr (True, this', [AddPendingRead (uniqueID (fProxy0 that))])"
    using assms(1,2,4-9) 4
    by (simp add: onCombineIfPossible_def Equals_def m slots_single array_store_def r this'_def)
  have f: "fProxyCnt this' = 2" "proxies this' = [fProxy0 this, fProxy0 that]"
    "filters this' = [fFilter0 this, fFilter0 that]" "fDraws this' = fDraws this @ ds"
    by (simp_all add: this'_def combine_tail_def proxies_def filters_def)
  have a1: "list_all (\<lambda>d. 0 \<le> fTextureIdx d \<and> fTextureIdx d < int (fProxyCnt this') \<and>
                        proxies this' ! nat (fTextureIdx d) = fProxy0 this) (fDraws this)"
    using assms(13) by (simp add: f list_all_iff)
  have a2: "list_all (\<lambda>d. 0 \<le> fTextureIdx d \<and> fTextureIdx d < int (fProxyCnt this') \<and>
                        proxies this' ! nat (fTextureIdx d) = fProxy0 that)
             (drop (length (fDraws this)) (fDraws this'))"
    by (simp add: f ds_def list_all_iff)
  show ?thesis
    using res f a1 a2 unfolding ds_def by blast
qed

theorem combine_two_singles_witness:
  "\<exists>this'. onCombineIfPossible False (fixture_caps 8)
              (fixture_op (fixture_proxy 1 None) kNearest kNone None)
              (fixture_op (fixture_proxy 2 (Some kTexture2DSampler_GrSLType)) kBilerp kNone None) =
              Inr (True, this', [AddPendingRead 2]) \<and>
           fProxyCnt this' = 2 \<and>
           map uniqueID (proxies this') = [1, 2] \<and>
           filters this' = [kNearest, kBilerp] \<and>
           map fTextureIdx (fDraws this') = [0, 1]"
proof -
  let ?a = "fixture_op (fixture_proxy 1 None) kNearest kNone None"
  let ?b = "fixture_op (fixture_proxy 2 (Some kTexture2DSampler_GrSLType)) kBilerp kNone None"
  have h: "fProxyCnt ?a = 1" "fProxyCnt ?b = 1"
    "uniqueID (fProxy0 ?a) \<noteq> uniqueID (fProxy0 ?b)"
    "fAAType ?a = fAAType ?b"
    "fColorSpaceXform ?a = None" "fColorSpaceXform ?b = None"
    "SupportsMultitexture (fixture_caps 8)"
    "fMaxApproxDstPixelArea ?a \<le> disableImageMultitexturingDstRectAreaThreshold (fixture_caps 8)"
    "fMaxApproxDstPixelArea ?b \<le> disableImageMultitexturingDstRectAreaThreshold (fixture_caps 8)"
    "2 \<le> min (maxFragmentSamplers (fixture_caps 8)) (kMaxTextures False)"
    "config (fProxy0 ?b) = config (fProxy0 ?a)"
    "case peekTexture (fProxy0 ?b) of None \<Rightarrow> True
     | Some tex \<Rightarrow> samplerType tex = kTexture2DSampler_GrSLType"
    "list_all (\<lambda>d. fTextureIdx d = 0) (fDraws ?a)"
    "list_all (\<lambda>d. fTextureIdx d = 0) (fDraws ?b)"
    by (simp_all add: fixture_defs SupportsMultitexture_def kMaxTextures_def)
  from combine_two_singles [OF h]
  obtain this' where r:
    "onCombineIfPossible False (fixture_caps 8) ?a ?b =
       Inr (True, this', [AddPendingRead (uniqueID (fProxy0 ?b))])"
    "fProxyCnt this' = 2"
    "proxies this' = [fProxy0 ?a, fProxy0 ?b]"
    "filters this' = [fFilter0 ?a, fFilter0 ?b]"
    "fDraws this' = fDraws ?a @ map (\<lambda>d. d\<lparr>fTextureIdx := 1\<rparr>) (fDraws ?b)"
    by blast
  have "uniqueID (fProxy0 ?b) = 2" "map uniqueID [fProxy0 ?a, fProxy0 ?b] = [1, 2]"
    "[fFilter0 ?a, fFilter0 ?b] = [kNearest, kBilerp]"
    "map fTextureIdx (fDraws ?a @ map (\<lambda>d. d\<lparr>fTextureIdx := 1\<rparr>) (fDraws ?b)) = [0, 1]"
    by (simp_all add: fixture_defs)
  with r show ?thesis
    by (intro exI [of _ this']) simp
qed

text \<open>
  C3. For two batches the code can produce, \<^verbatim>\<open>onCombineIfPossible\<close> returns normally.
  When it returns false, this batch is what it was and no reference-count call was
  made; the other batch is \<^verbatim>\<open>const\<close> and is never written. It returns false when the
  anti-aliasing modes differ, when the color-space transforms are not equal by value,
  and when a texture identity occurs in both batches with different filter modes.
\<close>

theorem combine_failure_unchanged:
  assumes rA: "reachable android caps this" and rB: "reachable android caps that"
  shows "\<exists>r this' evs. onCombineIfPossible android caps this that = Inr (r, this', evs) \<and>
           (\<not> r \<longrightarrow> this' = this \<and> evs = []) \<and>
           (fAAType this \<noteq> fAAType that \<longrightarrow> \<not> r) \<and>
           (\<not> Equals (fColorSpaceXform this) (fColorSpaceXform that) \<longrightarrow> \<not> r) \<and>
           ((\<exists>x \<in> set (slots this). \<exists>y \<in> set (slots that).
                 uniqueID (fst x) = uniqueID (fst y) \<and> snd x \<noteq> snd y) \<longrightarrow> \<not> r)"
proof -
  note okA = reachable_op_ok [OF rA] and okB = reachable_op_ok [OF rB]
  from combine_total [OF okA okB]
  obtain r this' evs where res: "onCombineIfPossible android caps this that = Inr (r, this', evs)"
    and un: "\<not> r \<Longrightarrow> this' = this \<and> evs = []"
    by (auto split: if_splits)
  have 1: "\<not> r" if "fAAType this \<noteq> fAAType that"
    using res that by (auto simp: onCombineIfPossible_def split: if_splits)
  have 2: "\<not> r" if "\<not> Equals (fColorSpaceXform this) (fColorSpaceXform that)"
    using res that by (auto simp: onCombineIfPossible_def split: if_splits)
  have 3: "\<not> r" if "\<exists>x \<in> set (slots this). \<exists>y \<in> set (slots that).
                 uniqueID (fst x) = uniqueID (fst y) \<and> snd x \<noteq> snd y"
  proof -
    from that obtain p f q g where pq: "(p, f) \<in> set (slots this)" "(q, g) \<in> set (slots that)"
      "uniqueID p = uniqueID q" "f \<noteq> g"
      by force
    note mp = mergeProxies_mismatch [OF okA okB pq]
    show ?thesis
    proof (cases "fProxyCnt this = 1 \<and> fProxyCnt that = 1")
      case True
      with pq have "uniqueID (fProxy0 this) = uniqueID (fProxy0 that)" "fFilter0 this \<noteq> fFilter0 that"
        by (simp_all add: slots_single)
      with res mp show ?thesis
        by (auto simp: onCombineIfPossible_def split: if_splits)
    next
      case False
      with op_ok_facts(2) [OF okA] op_ok_facts(2) [OF okB]
      have "fProxyCnt this > 1 \<or> fProxyCnt that > 1" by linarith
      with res mp show ?thesis
        by (auto simp: onCombineIfPossible_def split: if_splits)
    qed
  qed
  from res un 1 2 3 show ?thesis
    by (intro exI [of _ r] exI [of _ this'] exI [of _ evs]) auto
qed

theorem combine_failure_unchanged_witness:
  "onCombineIfPossible False (fixture_caps 8)
     (fixture_op (fixture_proxy 1 None) kNearest kNone None)
     (fixture_op (fixture_proxy 2 None) kNearest kCoverage None) =
     Inr (False, fixture_op (fixture_proxy 1 None) kNearest kNone None, []) \<and>
   onCombineIfPossible False (fixture_caps 8)
     (fixture_op (fixture_proxy 1 None) kNearest kNone None)
     (fixture_op (fixture_proxy 2 None) kNearest kNone (Some 5)) =
     Inr (False, fixture_op (fixture_proxy 1 None) kNearest kNone None, []) \<and>
   onCombineIfPossible False (fixture_caps 8)
     (fixture_op (fixture_proxy 1 None) kNearest kNone None)
     (fixture_op (fixture_proxy 1 None) kBilerp kNone None) =
     Inr (False, fixture_op (fixture_proxy 1 None) kNearest kNone None, [])"
proof -
  define a where "a = fixture_op (fixture_proxy 1 None) kNearest kNone None"
  define b1 where "b1 = fixture_op (fixture_proxy 2 None) kNearest kCoverage None"
  define b2 where "b2 = fixture_op (fixture_proxy 2 None) kNearest kNone (Some 5)"
  define b3 where "b3 = fixture_op (fixture_proxy 1 None) kBilerp kNone None"
  have r: "reachable False (fixture_caps 8) a" "reachable False (fixture_caps 8) b1"
    "reachable False (fixture_caps 8) b2" "reachable False (fixture_caps 8) b3"
    unfolding a_def b1_def b2_def b3_def by (simp_all add: fixture_reachable)
  have h1: "fAAType a \<noteq> fAAType b1"
    unfolding a_def b1_def by (simp add: fixture_op_def)
  have h2: "\<not> Equals (fColorSpaceXform a) (fColorSpaceXform b2)"
    unfolding a_def b2_def by (simp add: fixture_op_def Equals_def)
  have h3: "\<exists>x \<in> set (slots a). \<exists>y \<in> set (slots b3).
              uniqueID (fst x) = uniqueID (fst y) \<and> snd x \<noteq> snd y"
    unfolding a_def b3_def by (simp add: fixture_op_def slots_def proxies_def filters_def)
  have 1: "onCombineIfPossible False (fixture_caps 8) a b1 = Inr (False, a, [])"
    using combine_failure_unchanged [OF r(1) r(2)] h1 by auto
  have 2: "onCombineIfPossible False (fixture_caps 8) a b2 = Inr (False, a, [])"
    using combine_failure_unchanged [OF r(1) r(3)] h2 by auto
  have 3: "onCombineIfPossible False (fixture_caps 8) a b3 = Inr (False, a, [])"
    using combine_failure_unchanged [OF r(1) r(4)] h3 by auto
  show ?thesis
    using 1 2 3 unfolding a_def b1_def b2_def b3_def by (intro conjI)
qed




section \<open>Submission\<close>









section \<open>The selector and the hardware limit\<close>

text \<open>
  C10. For two, three or four textures the selector returns 4 slots whatever the
  hardware's fragment-sampler limit is: the limit caps the result only past four
  textures. Merging lets a batch grow to the smaller of the hard maximum and the
  hardware limit, so with a limit of 2 a merged batch of two textures, and with a limit
  of 3 a merged batch of three, is given 4 sampler slots.
\<close>

theorem NumSamplersToUse_exceeds_limit:
  assumes "2 \<le> n" and "n \<le> 4" and "n \<le> maxFragmentSamplers caps"
  shows "NumSamplersToUse android n caps = Inr 4 \<and>
         (maxFragmentSamplers caps < 4 \<longrightarrow>
            (\<exists>s. NumSamplersToUse android n caps = Inr s \<and> maxFragmentSamplers caps < s)) \<and>
         (\<exists>ab ev. onCombineIfPossible False (fixture_caps 2)
                     (fixture_op (fixture_proxy 1 None) kNearest kNone None)
                     (fixture_op (fixture_proxy 2 None) kNearest kNone None) = Inr (True, ab, ev) \<and>
                   fProxyCnt ab = 2 \<and>
                   NumSamplersToUse False (int (fProxyCnt ab)) (fixture_caps 2) = Inr 4 \<and>
                   maxFragmentSamplers (fixture_caps 2) = 2) \<and>
         (\<exists>ab ev abc ev'.
                   onCombineIfPossible False (fixture_caps 3)
                     (fixture_op (fixture_proxy 1 None) kNearest kNone None)
                     (fixture_op (fixture_proxy 2 None) kNearest kNone None) = Inr (True, ab, ev) \<and>
                   onCombineIfPossible False (fixture_caps 3) ab
                     (fixture_op (fixture_proxy 3 None) kNearest kNone None) = Inr (True, abc, ev') \<and>
                   fProxyCnt abc = 3 \<and>
                   NumSamplersToUse False (int (fProxyCnt abc)) (fixture_caps 3) = Inr 4 \<and>
                   maxFragmentSamplers (fixture_caps 3) = 3)"
proof (intro conjI)
  show 4: "NumSamplersToUse android n caps = Inr 4"
    using assms kMaxTextures_ge4 [of android] by (simp add: NumSamplersToUse_def)
  show "maxFragmentSamplers caps < 4 \<longrightarrow>
            (\<exists>s. NumSamplersToUse android n caps = Inr s \<and> maxFragmentSamplers caps < s)"
    using 4 by simp
  let ?a = "fixture_op (fixture_proxy 1 None) kNearest kNone None"
  let ?b = "fixture_op (fixture_proxy 2 None) kNearest kNone None"
  let ?c = "fixture_op (fixture_proxy 3 None) kNearest kNone None"
  let ?ab = "?a\<lparr> fDraws := fDraws ?a @ map (\<lambda>d. d\<lparr>fTextureIdx := 1\<rparr>) (fDraws ?b),
                  fProxyArray := [fProxy0 ?a, fProxy0 ?b],
                  fFilterArray := [kNearest, kNearest], fProxyCnt := 2 \<rparr>"
  let ?abc = "?a\<lparr> fDraws := fDraws ?a @ map (\<lambda>d. d\<lparr>fTextureIdx := 1\<rparr>) (fDraws ?b) @
                              map (\<lambda>d. d\<lparr>fTextureIdx := 2\<rparr>) (fDraws ?c),
                  fProxyArray := [fProxy0 ?a, fProxy0 ?b, fProxy0 ?c],
                  fFilterArray := [kNearest, kNearest, kNearest], fProxyCnt := 3 \<rparr>"
  have ab2: "onCombineIfPossible False (fixture_caps 2) ?a ?b = Inr (True, ?ab, [AddPendingRead 2])"
    by (simp add: fixture_defs combine_defs)
  have n2: "NumSamplersToUse False (int (fProxyCnt ?ab)) (fixture_caps 2) = Inr 4"
    by (simp add: NumSamplersToUse_def kMaxTextures_def fixture_caps_def)
  show "\<exists>ab ev. onCombineIfPossible False (fixture_caps 2) ?a ?b = Inr (True, ab, ev) \<and>
                   fProxyCnt ab = 2 \<and>
                   NumSamplersToUse False (int (fProxyCnt ab)) (fixture_caps 2) = Inr 4 \<and>
                   maxFragmentSamplers (fixture_caps 2) = 2"
    using ab2 n2 by (intro exI [of _ ?ab] exI [of _ "[AddPendingRead 2]"]) (simp add: fixture_caps_def)
  have ab3: "onCombineIfPossible False (fixture_caps 3) ?a ?b = Inr (True, ?ab, [AddPendingRead 2])"
    by (simp add: fixture_defs combine_defs)
  have abc3: "onCombineIfPossible False (fixture_caps 3) ?ab ?c = Inr (True, ?abc, [AddPendingRead 3])"
    by (simp add: fixture_defs combine_defs)
  have n3: "NumSamplersToUse False (int (fProxyCnt ?abc)) (fixture_caps 3) = Inr 4"
    by (simp add: NumSamplersToUse_def kMaxTextures_def fixture_caps_def)
  show "\<exists>ab ev abc ev'.
                   onCombineIfPossible False (fixture_caps 3) ?a ?b = Inr (True, ab, ev) \<and>
                   onCombineIfPossible False (fixture_caps 3) ab ?c = Inr (True, abc, ev') \<and>
                   fProxyCnt abc = 3 \<and>
                   NumSamplersToUse False (int (fProxyCnt abc)) (fixture_caps 3) = Inr 4 \<and>
                   maxFragmentSamplers (fixture_caps 3) = 3"
    using ab3 abc3 n3
    by (intro exI [of _ ?ab] exI [of _ "[AddPendingRead 2]"] exI [of _ ?abc]
          exI [of _ "[AddPendingRead 3]"]) (simp add: fixture_caps_def)
qed

theorem NumSamplersToUse_exceeds_limit_witness:
  "NumSamplersToUse False 3 (fixture_caps 3) = Inr 4 \<and>
   maxFragmentSamplers (fixture_caps 3) = 3"
proof -
  have h: "(2::int) \<le> 3" "(3::int) \<le> 4" "3 \<le> maxFragmentSamplers (fixture_caps 3)"
    by (simp_all add: fixture_caps_def)
  from NumSamplersToUse_exceeds_limit [OF h, of False]
  show ?thesis by (simp add: fixture_caps_def)
qed

section \<open>The lifetime of a batch: the claims\<close>



text \<open>
  C9, as the spec states it, has every merge of a batch precede its finalization. The
  code has it the other way round: \<^verbatim>\<open>onCombineIfPossible\<close> never looks at \<^verbatim>\<open>fFinalized\<close>,
  while \<^verbatim>\<open>finalize\<close> and the destructor of an unfinalized batch both assert that the
  batch has one texture. A batch is finalized and then merged with a batch of another
  texture, and lives and dies without a fault; the same merge before finalization
  trips the assertion of \<^verbatim>\<open>finalize\<close>, and that of the destructor when \<^verbatim>\<open>finalize\<close> is
  never called.
\<close>

theorem merge_after_finalize_counterexample:
  "finalize (fixture_op (fixture_proxy 1 None) kNearest kNone None) =
     Inr (fixture_finalized (fixture_proxy 1 None) kNearest kNone None,
          [AddPendingRead 1, Unref 1]) \<and>
   fFinalized (fixture_finalized (fixture_proxy 1 None) kNearest kNone None) \<and>
   onCombineIfPossible False (fixture_caps 8)
     (fixture_finalized (fixture_proxy 1 None) kNearest kNone None)
     (fixture_op (fixture_proxy 2 None) kNearest kNone None) =
     Inr (True, fixture_merged True, [AddPendingRead 2]) \<and>
   lifetime False (fixture_caps 8) (fixture_op (fixture_proxy 1 None) kNearest kNone None)
     [Finalize, Combine (fixture_op (fixture_proxy 2 None) kNearest kNone None)] =
     Inr (fixture_merged True,
          [AddPendingRead 1, Unref 1, AddPendingRead 2, CompletedRead 1, CompletedRead 2]) \<and>
   onCombineIfPossible False (fixture_caps 8)
     (fixture_op (fixture_proxy 1 None) kNearest kNone None)
     (fixture_op (fixture_proxy 2 None) kNearest kNone None) =
     Inr (True, fixture_merged False, [AddPendingRead 2]) \<and>
   finalize (fixture_merged False) = Inl AssertFailed \<and>
   TextureOp_dtor (fixture_merged False) = Inl AssertFailed \<and>
   lifetime False (fixture_caps 8) (fixture_op (fixture_proxy 1 None) kNearest kNone None)
     [Combine (fixture_op (fixture_proxy 2 None) kNearest kNone None), Finalize] =
     Inl AssertFailed \<and>
   lifetime False (fixture_caps 8) (fixture_op (fixture_proxy 1 None) kNearest kNone None)
     [Combine (fixture_op (fixture_proxy 2 None) kNearest kNone None)] =
     Inl AssertFailed"
  by (simp add: life_defs fixture_defs combine_defs)

text \<open>
  C9, amended. In a life of a batch that runs without a fault, \<^verbatim>\<open>finalize\<close> is called
  at most once, and a merge made before any finalization adds no texture: it leaves the
  texture list as it was, with its single texture, and makes no reference-count call.
  Every merge that adds a texture comes after the finalization.
\<close>

theorem finalize_once_merge_order:
  assumes ctor: "TextureOp_ctor proxy filter0 color srcRect quad bounds hasPerspective aaType csxf
       allowSRGBInputs = Inr op0"
    and oth: "list_all (reachable android caps) (others cs)"
    and lt: "lifetime android caps op0 cs = Inr (op, evlog)"
  shows "count_list cs Finalize \<le> 1 \<and>
         (\<forall>pre that post. cs = pre @ Combine that # post \<and> Finalize \<notin> set pre \<longrightarrow>
            (\<exists>opk logk r opk'.
               run_calls android caps pre (op0, []) = Inr (opk, logk) \<and> \<not> fFinalized opk \<and>
               onCombineIfPossible android caps opk that = Inr (r, opk', []) \<and>
               proxies opk' = proxies opk \<and> fProxyCnt opk' = 1))"
proof (intro conjI allI impI)
  show "count_list cs Finalize \<le> 1" by (rule lifetime_cases(4) [OF ctor oth lt])
next
  fix pre that post
  assume dec: "cs = pre @ Combine that # post \<and> Finalize \<notin> set pre"
  note c = ctor_op_ok(1) [OF ctor, of android caps] ctor_op_ok(2-5) [OF ctor]
  have l0: "log_ok op0 []" using c(2,3) by (simp add: log_ok_def proxies_def)
  have oth': "list_all (op_ok android caps) (others cs)"
    using oth by (auto simp: list_all_iff intro: reachable_op_ok)
  then have o: "list_all (op_ok android caps) (others pre)" "op_ok android caps that"
    "list_all (op_ok android caps) (others post)"
    using dec by (simp_all add: others_append)
  from lt obtain evlog1 evs where run: "run_calls android caps cs (op0, []) = Inr (op, evlog1)"
    and d: "TextureOp_dtor op = Inr evs"
    by (auto simp: lifetime_def split: sum.splits)
  from run dec obtain opk logk where
    pre: "run_calls android caps pre (op0, []) = Inr (opk, logk)"
    and rest: "run_calls android caps (Combine that # post) (opk, logk) = Inr (op, evlog1)"
    by (auto simp: run_calls_append split: sum.splits)
  from rest obtain r opk' evs' where
    m: "onCombineIfPossible android caps opk that = Inr (r, opk', evs')"
    and post: "run_calls android caps post (opk', logk @ evs') = Inr (op, evlog1)"
    by (auto split: sum.splits)
  from run_calls_inv [OF pre c(1) l0 o(1)] c(2) dec
  have k: "op_ok android caps opk" "log_ok opk logk" "\<not> fFinalized opk"
    by simp_all
  note s = combine_step [OF m k(1) o(2) k(2)]
  have "\<not> 1 < fProxyCnt opk'"
  proof
    assume "1 < fProxyCnt opk'"
    from run_calls_stuck [OF post s(1) o(3) _ this] s(4) k(3)
    have "\<not> fFinalized op \<and> 1 < fProxyCnt op" by simp
    with d show False by (simp add: TextureOp_dtor_def)
  qed
  with op_ok_facts(2) [OF s(1)] op_ok_facts(2) [OF k(1)] s(5)
  have one: "fProxyCnt opk' = 1" "fProxyCnt opk' = fProxyCnt opk" by simp_all
  from s(6) [OF one(2)] m pre k(3) one(1)
  show "\<exists>opk logk r opk'.
               run_calls android caps pre (op0, []) = Inr (opk, logk) \<and> \<not> fFinalized opk \<and>
               onCombineIfPossible android caps opk that = Inr (r, opk', []) \<and>
               proxies opk' = proxies opk \<and> fProxyCnt opk' = 1"
    by blast
qed

theorem finalize_once_merge_order_witness:
  "\<exists>op evlog opk logk r opk'.
     lifetime False (fixture_caps 8) (fixture_op (fixture_proxy 1 None) kNearest kNone None)
       [Combine (fixture_op (fixture_proxy 1 None) kNearest kNone None), Finalize,
        Combine (fixture_op (fixture_proxy 2 None) kNearest kNone None)] = Inr (op, evlog) \<and>
     count_list
       [Combine (fixture_op (fixture_proxy 1 None) kNearest kNone None), Finalize,
        Combine (fixture_op (fixture_proxy 2 None) kNearest kNone None)] Finalize \<le> 1 \<and>
     run_calls False (fixture_caps 8) []
       (fixture_op (fixture_proxy 1 None) kNearest kNone None, []) = Inr (opk, logk) \<and>
     \<not> fFinalized opk \<and>
     onCombineIfPossible False (fixture_caps 8) opk
       (fixture_op (fixture_proxy 1 None) kNearest kNone None) = Inr (r, opk', []) \<and>
     proxies opk' = proxies opk \<and> fProxyCnt opk' = 1"
proof -
  define a where "a = fixture_op (fixture_proxy 1 None) kNearest kNone None"
  define b where "b = fixture_op (fixture_proxy 2 None) kNearest kNone None"
  define cs where "cs = [Combine a, Finalize, Combine b]"
  have c: "TextureOp_ctor (fixture_proxy 1 None) kNearest 0 fixture_rect fixture_quad fixture_rect
             False kNone None False = Inr a"
    unfolding a_def by (simp add: fixture_ctor)
  have o: "list_all (reachable False (fixture_caps 8)) (others cs)"
    unfolding cs_def a_def b_def by (simp add: fixture_reachable)
  have "\<exists>op evlog. lifetime False (fixture_caps 8) a cs = Inr (op, evlog)"
    unfolding cs_def a_def b_def by (simp add: life_defs fixture_defs combine_defs)
  then obtain op evlog where l: "lifetime False (fixture_caps 8) a cs = Inr (op, evlog)"
    by (elim exE)
  note t = finalize_once_merge_order [OF c o l]
  have d: "cs = [] @ Combine a # [Finalize, Combine b] \<and> Finalize \<notin> set []"
    unfolding cs_def by simp
  from t [THEN conjunct2, rule_format, OF d]
  obtain opk logk r opk' where k:
    "run_calls False (fixture_caps 8) [] (a, []) = Inr (opk, logk)" "\<not> fFinalized opk"
    "onCombineIfPossible False (fixture_caps 8) opk a = Inr (r, opk', [])"
    "proxies opk' = proxies opk" "fProxyCnt opk' = 1"
    by (elim exE conjE)
  show ?thesis
    using l t [THEN conjunct1] k unfolding cs_def a_def b_def
    by (intro exI [of _ op] exI [of _ evlog] exI [of _ opk] exI [of _ logk] exI [of _ r]
          exI [of _ opk'] conjI)
qed

end
